(* ===== verification/GwPrelude.thy ===== *)
theory GwPrelude
  imports Complex_Main "HOL-Library.AList"
begin

text \<open>
  Prelude of the development: the collections of rewrite rules the components share, the types
  that name the gateway's values (clock readings, dictionaries), and generic lemmas on lists and
  association lists.

  A reading of a Python clock is a \<open>float\<close>, hence a rational number; it is modelled as
  \<^typ>\<open>rat\<close> with exact subtraction.  A Python \<open>dict\<close> keeps its insertion order and is an
  association list without repeated keys: \<open>d[k] = v\<close> is \<^const>\<open>AList.update\<close> (it replaces
  in place or appends), \<open>del d[k]\<close> is \<^const>\<open>AList.delete\<close>, \<open>d.get(k)\<close> is \<^const>\<open>map_of\<close>
  and \<open>len(d)\<close> is \<^const>\<open>length\<close>.
\<close>

named_theorems dict_simps \<open>lookups, updates and sizes of dictionaries\<close>
named_theorems text_simps \<open>Python string operations\<close>
named_theorems frame_simps \<open>state components an operation leaves alone\<close>

type_synonym time = rat
type_synonym ('k, 'v) dict = "('k \<times> 'v) list"

abbreviation keys :: "('k, 'v) dict \<Rightarrow> 'k list" where
  "keys d \<equiv> map fst d"

definition wf_dict :: "('k, 'v) dict \<Rightarrow> bool" where
  "wf_dict d \<longleftrightarrow> distinct (keys d)"

definition del_keys :: "'k list \<Rightarrow> ('k, 'v) dict \<Rightarrow> ('k, 'v) dict" where
  "del_keys ks d = foldl (\<lambda>m k. AList.delete k m) d ks"

text \<open>\<open>{**d, **e}\<close>: the entries of \<open>e\<close> stored into \<open>d\<close> one by one.\<close>

definition merge_dict :: "('k, 'v) dict \<Rightarrow> ('k, 'v) dict \<Rightarrow> ('k, 'v) dict" where
  "merge_dict d e = foldl (\<lambda>m (k, v). AList.update k v m) d e"

section \<open>Dictionaries\<close>

lemma dict_update_new: "k \<notin> set (keys d) \<Longrightarrow> AList.update k v d = d @ [(k, v)]"
  by (induction d) auto

lemma map_of_dict_update [dict_simps]:
  "map_of (AList.update k v d) k' = (if k' = k then Some v else map_of d k')"
  by (simp add: update_conv')

lemma map_of_dict_delete [dict_simps]:
  "map_of (AList.delete k d) k' = (if k' = k then None else map_of d k')"
  by (simp add: delete_conv')

lemma wf_dict_Nil [simp, dict_simps]: "wf_dict []"
  by (simp add: wf_dict_def)

lemma wf_dict_update [intro]: "wf_dict d \<Longrightarrow> wf_dict (AList.update k v d)"
  by (simp add: wf_dict_def distinct_update)

lemma wf_dict_filter [intro]: "wf_dict d \<Longrightarrow> wf_dict (filter P d)"
  by (simp add: wf_dict_def distinct_map_filter)

lemma wf_dict_delete [intro]: "wf_dict d \<Longrightarrow> wf_dict (AList.delete k d)"
  by (simp add: wf_dict_def distinct_delete)

lemma list_all_update: "list_all P d \<Longrightarrow> P (k, v) \<Longrightarrow> list_all P (AList.update k v d)"
  by (induction d) auto

lemma length_dict_update [dict_simps]:
  "length (AList.update k v d) = (if k \<in> set (keys d) then length d else Suc (length d))"
  by (induction d) auto

lemma keys_dict_update [dict_simps]:
  "keys (AList.update k v d) = (if k \<in> set (keys d) then keys d else keys d @ [k])"
  by (induction d) auto

lemma set_keys_update [dict_simps]:
  "set (keys (AList.update k v d)) = insert k (set (keys d))"
  by (induction d) auto

lemma in_keys_iff_map_of: "k \<in> set (keys d) \<longleftrightarrow> map_of d k \<noteq> None"
  by (force simp: map_of_eq_None_iff)

lemma del_keys_filter: "del_keys ks d = filter (\<lambda>(k, v). k \<notin> set ks) d"
  unfolding del_keys_def
proof (induction ks arbitrary: d)
  case Nil
  show ?case by simp
next
  case (Cons k ks)
  have "foldl (\<lambda>m k. AList.delete k m) d (k # ks)
      = filter (\<lambda>(k', v). k' \<notin> set ks) (AList.delete k d)"
    by (simp add: Cons.IH)
  also have "\<dots> = filter (\<lambda>(k', v). k' \<notin> set (k # ks)) d"
    unfolding AList.delete_eq by (auto simp: case_prod_beta intro!: filter_cong)
  finally show ?case .
qed

lemma map_of_rev_distinct: "distinct (map fst xs) \<Longrightarrow> map_of (rev xs) = map_of xs"
  by (subst map_of_inject_set) (simp_all flip: rev_map)

lemma wf_merge_dict [intro]: "wf_dict d \<Longrightarrow> wf_dict (merge_dict d e)"
  unfolding merge_dict_def by (induction e arbitrary: d) auto

lemma merge_dict_disjoint:
  "distinct (keys e) \<Longrightarrow> set (keys e) \<inter> set (keys d) = {} \<Longrightarrow> merge_dict d e = d @ e"
  unfolding merge_dict_def
proof (induction e arbitrary: d)
  case (Cons a e)
  obtain k v where a: "a = (k, v)" by force
  have "k \<notin> set (keys d)" using Cons.prems(2) by (auto simp: a)
  then have "AList.update k v d = d @ [a]" unfolding a by (rule dict_update_new)
  then show ?case using Cons.IH [of "d @ [a]"] Cons.prems by (auto simp: a)
qed simp

lemma map_of_merge_dict:
  "map_of (merge_dict d e) k = (case map_of (rev e) k of None \<Rightarrow> map_of d k | Some v \<Rightarrow> Some v)"
  unfolding merge_dict_def
  by (induction e arbitrary: d) (auto simp: dict_simps map_add_def split: option.splits)

lemma keys_merge_dict: "set (keys (merge_dict d e)) = set (keys d) \<union> set (keys e)"
  unfolding merge_dict_def
proof (induction e arbitrary: d)
  case (Cons a e)
  obtain k v where a: "a = (k, v)" by force
  show ?case using Cons.IH [of "AList.update k v d"] set_keys_update [of k v d] by (auto simp: a)
qed simp

lemma wf_dict_del_keys [intro]: "wf_dict d \<Longrightarrow> wf_dict (del_keys ks d)"
  by (simp add: del_keys_filter wf_dict_filter)

lemma map_of_filter_wf:
  assumes "wf_dict d"
  shows "map_of (filter (\<lambda>(k, v). P k v) d) k
       = (case map_of d k of None \<Rightarrow> None | Some v \<Rightarrow> if P k v then Some v else None)"
  using assms
proof (induction d)
  case (Cons a d)
  have notin: "map_of (filter (\<lambda>(k, v). P k v) d) (fst a) = None"
    using Cons.prems by (auto simp: wf_dict_def map_of_eq_None_iff image_iff)
  have IH: "map_of (filter (\<lambda>(k, v). P k v) d) k
       = (case map_of d k of None \<Rightarrow> None | Some v \<Rightarrow> if P k v then Some v else None)"
    using Cons by (simp add: wf_dict_def)
  show ?case
    using notin IH by (cases a) auto
qed simp

text \<open>
  The loop \<open>for k in [k for k, v in d.items() if p(v)]: del d[k]\<close>, which both pruning loops of
  the gateway have, keeps exactly the entries that fail the test.
\<close>

lemma del_keys_where:
  assumes "wf_dict d"
  shows "del_keys (map fst (filter (\<lambda>(k, v). P v) d)) d = filter (\<lambda>(k, v). \<not> P v) d"
proof -
  have "k \<in> fst ` {x \<in> set d. case x of (k, v) \<Rightarrow> P v} \<longleftrightarrow> P v" if "(k, v) \<in> set d" for k v
  proof
    assume "k \<in> fst ` {x \<in> set d. case x of (k, v) \<Rightarrow> P v}"
    then obtain w where w: "(k, w) \<in> set d" "P w" by auto
    moreover have "w = v"
      using assms that w unfolding wf_dict_def by (metis eq_key_imp_eq_value)
    ultimately show "P v" by simp
  qed (use that in force)
  then show ?thesis
    by (auto simp: del_keys_filter intro!: filter_cong)
qed

lemma length_wf_dict_card: "wf_dict d \<Longrightarrow> length d = card (dom (map_of d))"
  by (metis dom_map_of_conv_image_fst distinct_card length_map list.set_map wf_dict_def)

section \<open>The dictionary contract\<close>

text \<open>
  What the gateway's tables rely on: the laws of lookup, store and delete, and that the length
  counts the keys.  Clients of the contract get the size bounds of insertion.
\<close>

locale dict_store =
  fixes get :: "'m \<Rightarrow> 'k \<Rightarrow> 'v option"
    and put :: "'k \<Rightarrow> 'v \<Rightarrow> 'm \<Rightarrow> 'm"
    and del :: "'k \<Rightarrow> 'm \<Rightarrow> 'm"
    and len :: "'m \<Rightarrow> nat"
    and wf :: "'m \<Rightarrow> bool"
  assumes get_put: "get (put k v m) k' = (if k' = k then Some v else get m k')"
    and get_del: "get (del k m) k' = (if k' = k then None else get m k')"
    and wf_put: "wf m \<Longrightarrow> wf (put k v m)"
    and wf_del: "wf m \<Longrightarrow> wf (del k m)"
    and fin: "finite (dom (get m))"
    and len_card: "wf m \<Longrightarrow> len m = card (dom (get m))"
begin

lemma dom_put: "dom (get (put k v m)) = insert k (dom (get m))"
  by (auto simp: get_put dom_def)

lemma dom_del: "dom (get (del k m)) = dom (get m) - {k}"
  by (auto simp: get_del dom_def)

lemma len_put:
  assumes "wf m"
  shows "len (put k v m) = (if get m k = None then Suc (len m) else len m)"
  using assms fin [of m] by (auto simp: len_card wf_put dom_put card_insert_if domIff)

lemma len_put_le: "wf m \<Longrightarrow> len (put k v m) \<le> Suc (len m)"
  by (simp add: len_put)

lemma len_del_le: "wf m \<Longrightarrow> len (del k m) \<le> len m"
  using fin [of m] by (simp add: len_card wf_del dom_del card_Diff1_le)

end

interpretation alist: dict_store map_of AList.update AList.delete length wf_dict
  by unfold_locales
     (auto simp: dict_simps length_wf_dict_card finite_dom_map_of)

section \<open>Runs of a stateful check\<close>

text \<open>
  A check takes a key and a clock reading and returns its verdict with the new state;
  \<open>run_checks\<close> is a sequence of such calls, oldest first, with the verdicts in order.
\<close>

fun run_checks :: "('k \<Rightarrow> time \<Rightarrow> 's \<Rightarrow> bool \<times> 's) \<Rightarrow> (time \<times> 'k) list \<Rightarrow> 's \<Rightarrow> bool list \<times> 's" where
  "run_checks check [] s = ([], s)"
| "run_checks check ((t, k) # rs) s =
     (let (b, s') = check k t s; (bs, s'') = run_checks check rs s' in (b # bs, s''))"

lemma run_checks_append:
  "run_checks check (rs @ rs') s =
     (let (bs, s') = run_checks check rs s; (bs', s'') = run_checks check rs' s' in (bs @ bs', s''))"
  by (induction rs arbitrary: s) (auto simp: case_prod_beta Let_def)

lemma length_run_checks [simp]: "length (fst (run_checks check rs s)) = length rs"
  by (induction rs arbitrary: s) (auto simp: case_prod_beta Let_def)

text \<open>The accepted calls of a run, those whose verdict was \<open>False\<close> (not limited).\<close>

definition accepted :: "(time \<times> 'k) list \<Rightarrow> bool list \<Rightarrow> (time \<times> 'k) list" where
  "accepted rs bs = map fst (filter (\<lambda>(r, b). \<not> b) (zip rs bs))"

lemma accepted_Nil [simp]: "accepted [] bs = []"
  by (simp add: accepted_def)

lemma accepted_Cons [simp]: "accepted (r # rs) (b # bs) = (if b then [] else [r]) @ accepted rs bs"
  by (simp add: accepted_def)

end
