(* ===== verification/PyText.thy ===== *)
theory PyText
  imports GwPrelude "HOL-Library.Char_ord" "HOL-Library.List_Lexorder" "HOL-Library.Sublist"
begin

text \<open>
  The operations of Python's \<open>str\<close> that the gateway uses, on HOL strings.  A \<^typ>\<open>char\<close> is one
  code point below 256 (Latin-1, the encoding in which Starlette decodes HTTP headers); strings
  compare by code point, which is the lexicographic order of \<open>List_Lexorder\<close> over \<open>Char_ord\<close>.
\<close>

abbreviation code :: "char \<Rightarrow> nat" where
  "code c \<equiv> of_char c"

section \<open>Character classes\<close>

definition is_space :: "char \<Rightarrow> bool" where
  "is_space c = ((9 \<le> code c \<and> code c \<le> 13) \<or> (28 \<le> code c \<and> code c \<le> 32)
     \<or> code c = 133 \<or> code c = 160)"

definition is_digit :: "char \<Rightarrow> bool" where
  "is_digit c = (48 \<le> code c \<and> code c \<le> 57)"

definition is_alpha_ascii :: "char \<Rightarrow> bool" where
  "is_alpha_ascii c = ((65 \<le> code c \<and> code c \<le> 90) \<or> (97 \<le> code c \<and> code c \<le> 122))"

definition lower_char :: "char \<Rightarrow> char" where
  "lower_char c =
     (if (65 \<le> code c \<and> code c \<le> 90) \<or> (192 \<le> code c \<and> code c \<le> 222 \<and> code c \<noteq> 215)
      then char_of (code c + 32) else c)"

definition hex_digit :: "char \<Rightarrow> nat option" where
  "hex_digit c =
     (if is_digit c then Some (code c - 48)
      else if 97 \<le> code c \<and> code c \<le> 102 then Some (code c - 87)
      else if 65 \<le> code c \<and> code c \<le> 70 then Some (code c - 55)
      else None)"

section \<open>String methods\<close>

definition py_lower :: "string \<Rightarrow> string" where
  "py_lower s = map lower_char s"

definition py_lstrip :: "string \<Rightarrow> string" where
  "py_lstrip s = dropWhile is_space s"

definition py_strip :: "string \<Rightarrow> string" where
  "py_strip s = rev (dropWhile is_space (rev (py_lstrip s)))"

definition py_rstrip_char :: "char \<Rightarrow> string \<Rightarrow> string" where
  "py_rstrip_char c s = rev (dropWhile (\<lambda>x. x = c) (rev s))"

definition py_replace_char :: "char \<Rightarrow> char \<Rightarrow> string \<Rightarrow> string" where
  "py_replace_char a b s = map (\<lambda>c. if c = a then b else c) s"

fun split_when :: "(char \<Rightarrow> bool) \<Rightarrow> string \<Rightarrow> string list" where
  "split_when p [] = [[]]"
| "split_when p (c # cs) =
     (if p c then [] # split_when p cs
      else case split_when p cs of [] \<Rightarrow> [[c]] | w # ws \<Rightarrow> (c # w) # ws)"

text \<open>\<open>s.split(sep)\<close>, \<open>s.split()\<close> and \<open>s.split(sep, 1)\<close>.\<close>

definition py_split :: "char \<Rightarrow> string \<Rightarrow> string list" where
  "py_split sep s = split_when (\<lambda>c. c = sep) s"

definition py_split_ws :: "string \<Rightarrow> string list" where
  "py_split_ws s = filter (\<lambda>w. w \<noteq> []) (split_when is_space s)"

definition py_split1 :: "char \<Rightarrow> string \<Rightarrow> string list" where
  "py_split1 sep s =
     (if sep \<in> set s
      then [takeWhile (\<lambda>c. c \<noteq> sep) s, tl (dropWhile (\<lambda>c. c \<noteq> sep) s)]
      else [s])"

fun py_join :: "char \<Rightarrow> string list \<Rightarrow> string" where
  "py_join sep [] = []"
| "py_join sep [w] = w"
| "py_join sep (w # w' # ws) = w @ sep # py_join sep (w' # ws)"

definition py_startswith :: "string \<Rightarrow> string \<Rightarrow> bool" where
  "py_startswith s p = prefix p s"

section \<open>Numerals\<close>

fun dec_digits :: "nat \<Rightarrow> string" where
  "dec_digits n = (if n < 10 then [char_of (48 + n)] else dec_digits (n div 10) @ [char_of (48 + n mod 10)])"

declare dec_digits.simps [simp del]

definition py_int_str :: "int \<Rightarrow> string" where
  "py_int_str i = (if i < 0 then CHR ''-'' # dec_digits (nat (- i)) else dec_digits (nat i))"

definition dec_value :: "string \<Rightarrow> nat" where
  "dec_value s = foldl (\<lambda>n c. 10 * n + (code c - 48)) 0 s"

text \<open>\<open>int\<close> of a longer decimal string is a \<open>ValueError\<close>.\<close>

definition INT_MAX_STR_DIGITS :: nat where
  "INT_MAX_STR_DIGITS = 4300"

text \<open>\<open>bytes.isdigit()\<close>: at least one byte, all ASCII digits.\<close>

definition bytes_isdigit :: "string \<Rightarrow> bool" where
  "bytes_isdigit s = (s \<noteq> [] \<and> list_all is_digit s)"

text \<open>
  \<open>int(s, 16)\<close>: surrounding white space, a sign, a \<open>0x\<close> prefix and single underscores between
  digits are allowed; anything else is a \<open>ValueError\<close> (\<^const>\<open>None\<close>).
\<close>

fun hex_digits_value :: "nat \<Rightarrow> string \<Rightarrow> nat option" where
  "hex_digits_value acc [] = Some acc"
| "hex_digits_value acc (c # cs) =
     (case hex_digit c of
        Some d \<Rightarrow> hex_digits_value (16 * acc + d) cs
      | None \<Rightarrow>
          (if c = CHR ''_'' then
             (case cs of [] \<Rightarrow> None | c' # cs' \<Rightarrow>
                (case hex_digit c' of None \<Rightarrow> None | Some d \<Rightarrow> hex_digits_value (16 * acc + d) cs'))
           else None))"

definition hex_unsigned :: "string \<Rightarrow> nat option" where
  "hex_unsigned s =
     (let t = (if py_startswith s ''0x'' \<or> py_startswith s ''0X'' then drop 2 s else s);
          u = (if t \<noteq> s \<and> py_startswith t ''_'' then drop 1 t else t)
      in case u of
           [] \<Rightarrow> None
         | c # cs \<Rightarrow> (case hex_digit c of None \<Rightarrow> None | Some d \<Rightarrow> hex_digits_value d cs))"

definition py_int16 :: "string \<Rightarrow> int option" where
  "py_int16 s =
     (let t = py_strip s
      in if py_startswith t ''-'' then map_option (\<lambda>n. - int n) (hex_unsigned (drop 1 t))
         else if py_startswith t ''+'' then map_option int (hex_unsigned (drop 1 t))
         else map_option int (hex_unsigned t))"

section \<open>Laws of the string methods\<close>

lemma eq_char_of_iff: "c = char_of (n :: nat) \<longleftrightarrow> of_char c = take_bit 8 n"
  by (metis char_of_eq_iff)

text \<open>Decides the equations between literal characters that evaluation leaves.\<close>

lemmas char_eval = char_of_eq_iff eq_char_of_iff

lemma py_lower_length [simp]: "length (py_lower s) = length s"
  by (simp add: py_lower_def)

lemma code_lower_char: "code (lower_char c) = (if (65 \<le> code c \<and> code c \<le> 90)
    \<or> (192 \<le> code c \<and> code c \<le> 222 \<and> code c \<noteq> 215) then code c + 32 else code c)"
  by (auto simp: lower_char_def)

lemma lower_char_idem [simp]: "lower_char (lower_char c) = lower_char c"
  unfolding lower_char_def [of "lower_char c"] by (auto simp: code_lower_char)

lemma py_lower_idem [simp]: "py_lower (py_lower s) = py_lower s"
  by (simp add: py_lower_def comp_def)

lemma py_strip_infix: "\<exists>a b. s = a @ py_strip s @ b \<and> list_all is_space a \<and> list_all is_space b"
proof -
  let ?l = "py_lstrip s"
  have 1: "s = takeWhile is_space s @ ?l"
    by (simp add: py_lstrip_def)
  have "rev ?l = takeWhile is_space (rev ?l) @ dropWhile is_space (rev ?l)" by simp
  then have 2: "?l = py_strip s @ rev (takeWhile is_space (rev ?l))"
    by (metis py_strip_def rev_append rev_rev_ident)
  have "list_all is_space (takeWhile is_space s)"
    "list_all is_space (rev (takeWhile is_space (rev ?l)))"
    by (auto simp: list_all_iff dest: set_takeWhileD)
  with 1 2 show ?thesis by metis
qed

lemma set_py_strip: "set (py_strip s) \<subseteq> set s"
proof -
  obtain a b where "s = a @ py_strip s @ b" using py_strip_infix by blast
  then have "set s = set a \<union> set (py_strip s) \<union> set b"
    by (metis set_append sup_assoc)
  then show ?thesis by blast
qed

lemma py_strip_no_space: "list_all (\<lambda>c. \<not> is_space c) s \<Longrightarrow> py_strip s = s"
proof -
  assume a: "list_all (\<lambda>c. \<not> is_space c) s"
  have drop: "dropWhile is_space t = t" if "list_all (\<lambda>c. \<not> is_space c) t" for t
    using that by (cases t) auto
  have "dropWhile is_space s = s"
    using a by (rule drop)
  moreover have "dropWhile is_space (rev s) = rev s"
    using a by (intro drop) simp
  ultimately show ?thesis
    by (simp add: py_strip_def py_lstrip_def)
qed

lemma split_when_nonempty [simp]: "split_when p s \<noteq> []"
  by (induction s) (auto split: list.splits)

lemma split_when_append:
  "p c \<Longrightarrow> split_when p (a @ c # b) = split_when p a @ split_when p b"
  by (induction a) (auto split: list.splits)

lemma split_when_none: "list_all (\<lambda>c. \<not> p c) s \<Longrightarrow> split_when p s = [s]"
  by (induction s) auto

lemma py_join_split [text_simps]: "py_join sep (py_split sep s) = s"
  unfolding py_split_def
proof (induction s)
  case (Cons c cs)
  then show ?case
    by (cases "split_when (\<lambda>c. c = sep) cs"; cases "tl (split_when (\<lambda>c. c = sep) cs)") auto
qed simp

lemma py_split_append [text_simps]: "py_split sep (a @ sep # b) = py_split sep a @ py_split sep b"
  by (simp add: py_split_def split_when_append)

lemma py_split_single [text_simps]: "sep \<notin> set s \<Longrightarrow> py_split sep s = [s]"
  unfolding py_split_def by (rule split_when_none) (auto simp: list_all_iff)

lemma py_split1_hd [text_simps]: "hd (py_split1 sep s) = takeWhile (\<lambda>c. c \<noteq> sep) s"
proof (cases "sep \<in> set s")
  case False
  then have all: "takeWhile (\<lambda>c. c \<noteq> sep) s = s"
    by (metis (mono_tags) takeWhile_eq_all_conv)
  from False have "py_split1 sep s = [s]" by (simp add: py_split1_def)
  then show ?thesis by (simp only: list.sel all)
qed (simp add: py_split1_def)

section \<open>Laws of the numerals\<close>

lemma is_digit_dec_digits: "list_all is_digit (dec_digits n)"
proof (induction n rule: dec_digits.induct)
  case (1 n)
  have "is_digit (char_of (48 + d))" if "d < 10" for d :: nat
    using that by (simp add: is_digit_def)
  with 1 show ?case by (subst dec_digits.simps) auto
qed

lemma dec_digits_nonempty [simp]: "dec_digits n \<noteq> []"
  by (subst dec_digits.simps) simp

lemma dec_value_snoc: "dec_value (s @ [c]) = 10 * dec_value s + (code c - 48)"
  by (simp add: dec_value_def)

lemma dec_value_dec_digits [simp]: "dec_value (dec_digits n) = n"
proof (induction n rule: dec_digits.induct)
  case (1 n)
  show ?case
  proof (cases "n < 10")
    case True
    then show ?thesis by (subst dec_digits.simps) (simp add: dec_value_def)
  next
    case False
    then have "dec_value (dec_digits n) = 10 * (n div 10) + n mod 10"
      using 1 by (subst dec_digits.simps) (simp add: dec_value_snoc)
    then show ?thesis by simp
  qed
qed

lemma dec_digits_inject [simp]: "dec_digits m = dec_digits n \<longleftrightarrow> m = n"
  by (metis dec_value_dec_digits)

text \<open>
  Strings over the lower-case hexadecimal alphabet: \<open>int(s, 16)\<close> reads them digit by digit, never
  fails, and gives zero only for a string of zeros.
\<close>

definition hex_alphabet :: string where
  "hex_alphabet = ''0123456789abcdef''"

lemma hex_alphabet_digit:
  assumes "c \<in> set hex_alphabet"
  obtains d where "hex_digit c = Some d" "d < 16" "d = 0 \<longleftrightarrow> c = CHR ''0''"
  using assms by (auto simp: hex_alphabet_def hex_digit_def is_digit_def)

lemma hex_digits_value_hex:
  assumes "set s \<subseteq> set hex_alphabet"
  shows "\<exists>v. hex_digits_value acc s = Some v \<and> v < (acc + 1) * 16 ^ length s
             \<and> (v = 0 \<longleftrightarrow> acc = 0 \<and> set s \<subseteq> {CHR ''0''})"
  using assms
proof (induction s arbitrary: acc)
  case (Cons c s)
  then have "c \<in> set hex_alphabet" by simp
  then obtain d where d: "hex_digit c = Some d" "d < 16" "d = 0 \<longleftrightarrow> c = CHR ''0''"
    by (rule hex_alphabet_digit)
  obtain v where v: "hex_digits_value (16 * acc + d) s = Some v"
      "v < (16 * acc + d + 1) * 16 ^ length s" "v = 0 \<longleftrightarrow> 16 * acc + d = 0 \<and> set s \<subseteq> {CHR ''0''}"
    using Cons.IH [of "16 * acc + d"] Cons.prems by auto
  have "(16 * acc + d + 1) * 16 ^ length s \<le> (16 * (acc + 1)) * 16 ^ length s"
    using d(2) by (intro mult_le_mono1) simp
  with v(2) have "v < (16 * (acc + 1)) * 16 ^ length s" by (rule less_le_trans)
  then have "v < (acc + 1) * 16 ^ length (c # s)" by (simp add: algebra_simps)
  then show ?case using v d by auto
qed simp

lemma hex_alphabet_not_special:
  assumes "c \<in> set hex_alphabet"
  shows "\<not> is_space c" "c \<noteq> CHR ''-''" "c \<noteq> CHR ''+''" "c \<noteq> CHR ''x''" "c \<noteq> CHR ''X''" "c \<noteq> CHR ''_''"
  using assms by (auto simp: hex_alphabet_def is_space_def)

lemma startswith_subset: "py_startswith s p \<Longrightarrow> set p \<subseteq> set s"
  by (auto simp: py_startswith_def prefix_def)

lemma py_int16_hex:
  assumes "s \<noteq> []" "set s \<subseteq> set hex_alphabet"
  obtains v where "py_int16 s = Some (int v)" "v < 16 ^ length s" "v = 0 \<longleftrightarrow> set s \<subseteq> {CHR ''0''}"
proof -
  obtain c cs where s: "s = c # cs" using assms(1) by (cases s) auto
  have c: "c \<in> set hex_alphabet" and cs: "set cs \<subseteq> set hex_alphabet" using assms(2) by (auto simp: s)
  obtain d where d: "hex_digit c = Some d" "d < 16" "d = 0 \<longleftrightarrow> c = CHR ''0''"
    using c by (rule hex_alphabet_digit)
  obtain v where v: "hex_digits_value d cs = Some v" "v < (d + 1) * 16 ^ length cs"
      "v = 0 \<longleftrightarrow> d = 0 \<and> set cs \<subseteq> {CHR ''0''}"
    using hex_digits_value_hex [OF cs] by blast
  have strip: "py_strip s = s"
    using assms(2) hex_alphabet_not_special(1) by (intro py_strip_no_space) (auto simp: list_all_iff)
  have "CHR ''x'' \<notin> set s" "CHR ''X'' \<notin> set s" "CHR ''-'' \<notin> set s" "CHR ''+'' \<notin> set s"
    using assms(2) by (auto simp: hex_alphabet_def)
  then have no_prefix: "\<not> py_startswith s ''0x''" "\<not> py_startswith s ''0X''"
      "\<not> py_startswith s ''-''" "\<not> py_startswith s ''+''"
    using startswith_subset by fastforce+
  have "py_int16 s = Some (int v)"
    unfolding py_int16_def strip Let_def hex_unsigned_def using no_prefix v(1) d(1) by (simp add: s)
  moreover have "(d + 1) * 16 ^ length cs \<le> 16 * 16 ^ length cs" using d(2) by (intro mult_le_mono1) simp
  with v(2) have "v < 16 * 16 ^ length cs" by (rule less_le_trans)
  then have "v < 16 ^ length s" by (simp add: s)
  ultimately show ?thesis using that v(3) d(3) by (auto simp: s)
qed

end
