(* ===== verification/PyJson.thy ===== *)
theory PyJson
  imports PyText
begin

text \<open>
  The Python values that cross the gateway's interfaces (JSON bodies, JWT claims, log records) and
  the built-in operations the code applies to them: truthiness, \<open>str()\<close>, \<open>repr()\<close> and
  \<open>json.dumps\<close>.  A \<open>float\<close> is carried as the text of its \<open>repr\<close>, which is all the code
  ever looks at.
\<close>

datatype py_exn = KeyError | ValueError | IndexError

datatype pyval =
    PNone
  | PBool bool
  | PInt int
  | PFloat string
  | PStr string
  | PList "pyval list"
  | PDict "(string \<times> pyval) list"

type_synonym json_record = "(string, pyval) dict"

abbreviation pstr_opt :: "string option \<Rightarrow> pyval" where
  "pstr_opt x \<equiv> (case x of None \<Rightarrow> PNone | Some s \<Rightarrow> PStr s)"

fun py_truthy :: "pyval \<Rightarrow> bool" where
  "py_truthy PNone = False"
| "py_truthy (PBool b) = b"
| "py_truthy (PInt i) = (i \<noteq> 0)"
| "py_truthy (PFloat r) = (r \<noteq> ''0.0'' \<and> r \<noteq> ''-0.0'')"
| "py_truthy (PStr s) = (s \<noteq> [])"
| "py_truthy (PList xs) = (xs \<noteq> [])"
| "py_truthy (PDict d) = (d \<noteq> [])"

section \<open>Text of a value\<close>

definition hex_char :: "nat \<Rightarrow> char" where
  "hex_char d = (if d < 10 then char_of (48 + d) else char_of (87 + d))"

definition hex2 :: "char \<Rightarrow> string" where
  "hex2 c = [hex_char (code c div 16), hex_char (code c mod 16)]"

fun py_intersperse :: "string \<Rightarrow> string list \<Rightarrow> string" where
  "py_intersperse sep [] = []"
| "py_intersperse sep [w] = w"
| "py_intersperse sep (w # w' # ws) = w @ sep @ py_intersperse sep (w' # ws)"

text \<open>\<open>repr\<close> of a string: double quotes only when it has a single quote and no double one.\<close>

definition is_printable :: "char \<Rightarrow> bool" where
  "is_printable c = ((32 \<le> code c \<and> code c \<le> 126) \<or> (161 \<le> code c \<and> code c \<noteq> 173))"

definition repr_char :: "char \<Rightarrow> char \<Rightarrow> string" where
  "repr_char q c =
     (if c = q \<or> code c = 92 then [CHR 0x5C, c]
      else if code c = 10 then [CHR 0x5C, CHR ''n'']
      else if code c = 13 then [CHR 0x5C, CHR ''r'']
      else if code c = 9 then [CHR 0x5C, CHR ''t'']
      else if is_printable c then [c]
      else [CHR 0x5C, CHR ''x''] @ hex2 c)"

definition repr_str :: "string \<Rightarrow> string" where
  "repr_str s =
     (let q = (if CHR 0x27 \<in> set s \<and> CHR 0x22 \<notin> set s then CHR 0x22 else CHR 0x27)
      in [q] @ concat (map (repr_char q) s) @ [q])"

fun py_repr :: "pyval \<Rightarrow> string" where
  "py_repr PNone = ''None''"
| "py_repr (PBool b) = (if b then ''True'' else ''False'')"
| "py_repr (PInt i) = py_int_str i"
| "py_repr (PFloat r) = r"
| "py_repr (PStr s) = repr_str s"
| "py_repr (PList xs) = ''['' @ py_intersperse '', '' (map py_repr xs) @ '']''"
| "py_repr (PDict kvs) =
     ''{'' @ py_intersperse '', '' (map (\<lambda>kv. repr_str (fst kv) @ '': '' @ py_repr (snd kv)) kvs) @ ''}''"

fun py_str :: "pyval \<Rightarrow> string" where
  "py_str (PStr s) = s"
| "py_str v = py_repr v"

section \<open>json.dumps\<close>

text \<open>The default encoder: separators \<open>", "\<close> and \<open>": "\<close>, every non-ASCII character escaped.\<close>

definition json_char :: "char \<Rightarrow> string" where
  "json_char c =
     (if code c = 34 \<or> code c = 92 then [CHR 0x5C, c]
      else if code c = 10 then [CHR 0x5C, CHR ''n'']
      else if code c = 13 then [CHR 0x5C, CHR ''r'']
      else if code c = 9 then [CHR 0x5C, CHR ''t'']
      else if code c = 8 then [CHR 0x5C, CHR ''b'']
      else if code c = 12 then [CHR 0x5C, CHR ''f'']
      else if 32 \<le> code c \<and> code c \<le> 126 then [c]
      else [CHR 0x5C, CHR ''u'', CHR ''0'', CHR ''0''] @ hex2 c)"

definition json_str :: "string \<Rightarrow> string" where
  "json_str s = [CHR 0x22] @ concat (map json_char s) @ [CHR 0x22]"

fun json_dumps :: "pyval \<Rightarrow> string" where
  "json_dumps PNone = ''null''"
| "json_dumps (PBool b) = (if b then ''true'' else ''false'')"
| "json_dumps (PInt i) = py_int_str i"
| "json_dumps (PFloat r) =
     (if r = ''nan'' then ''NaN'' else if r = ''inf'' then ''Infinity''
      else if r = ''-inf'' then ''-Infinity'' else r)"
| "json_dumps (PStr s) = json_str s"
| "json_dumps (PList xs) = ''['' @ py_intersperse '', '' (map json_dumps xs) @ '']''"
| "json_dumps (PDict kvs) =
     ''{'' @ py_intersperse '', '' (map (\<lambda>kv. json_str (fst kv) @ '': '' @ json_dumps (snd kv)) kvs) @ ''}''"

text \<open>
  Every character \<open>json.dumps\<close> writes is printable ASCII: an encoded value is one line whatever
  the strings in it hold.  The \<open>float\<close> texts are the only part the encoder copies as they are.
\<close>

definition ascii_print :: "char \<Rightarrow> bool" where
  "ascii_print c = (32 \<le> code c \<and> code c \<le> 126)"

fun floats_ok :: "pyval \<Rightarrow> bool" where
  "floats_ok (PFloat r) = list_all ascii_print r"
| "floats_ok (PList xs) = list_all floats_ok xs"
| "floats_ok (PDict kvs) = list_all (\<lambda>kv. floats_ok (snd kv)) kvs"
| "floats_ok _ = True"

lemma ascii_hex_char: "d < 16 \<Longrightarrow> ascii_print (hex_char d)"
  by (simp add: hex_char_def ascii_print_def)

lemma ascii_hex2: "list_all ascii_print (hex2 c)"
proof -
  have "code c div 16 < 16" by (rule less_mult_imp_div_less) simp
  then show ?thesis by (simp add: hex2_def ascii_hex_char)
qed

lemma ascii_json_char: "list_all ascii_print (json_char c)"
  by (auto simp: json_char_def ascii_hex2) (auto simp: ascii_print_def)

lemma ascii_json_str: "list_all ascii_print (json_str s)"
  using ascii_json_char by (auto simp: json_str_def list_all_iff) (auto simp: ascii_print_def)

lemma ascii_intersperse:
  "list_all (list_all ascii_print) ws \<Longrightarrow> list_all ascii_print (py_intersperse '', '' ws)"
  by (induction "'', ''" ws rule: py_intersperse.induct) (auto simp: ascii_print_def)

lemma ascii_py_int_str: "list_all ascii_print (py_int_str i)"
proof -
  have "list_all ascii_print (dec_digits n)" for n
    using is_digit_dec_digits [of n]
    by (auto simp: list_all_iff is_digit_def ascii_print_def)
  then show ?thesis by (auto simp: py_int_str_def ascii_print_def)
qed

lemma ascii_lits:
  "list_all ascii_print ''null''" "list_all ascii_print ''true''" "list_all ascii_print ''false''"
  "list_all ascii_print '', ''" "list_all ascii_print '': ''"
  "list_all ascii_print ''NaN''" "list_all ascii_print ''Infinity''" "list_all ascii_print ''-Infinity''"
  "ascii_print (CHR ''['')" "ascii_print (CHR '']'')" "ascii_print (CHR ''{'')" "ascii_print (CHR ''}'')"
  by (simp_all add: ascii_print_def)

lemma json_dumps_ascii: "floats_ok v \<Longrightarrow> list_all ascii_print (json_dumps v)"
proof (induction v rule: json_dumps.induct)
  case (6 xs)
  then have "list_all (list_all ascii_print) (map json_dumps xs)"
    by (auto simp: list_all_iff)
  then have "list_all ascii_print (py_intersperse '', '' (map json_dumps xs))"
    by (rule ascii_intersperse)
  then show ?case by (simp add: ascii_lits)
next
  case (7 kvs)
  then have "list_all (list_all ascii_print)
      (map (\<lambda>kv. json_str (fst kv) @ '': '' @ json_dumps (snd kv)) kvs)"
    using ascii_json_str ascii_lits by (auto simp: list_all_iff)
  then have "list_all ascii_print
      (py_intersperse '', '' (map (\<lambda>kv. json_str (fst kv) @ '': '' @ json_dumps (snd kv)) kvs))"
    by (rule ascii_intersperse)
  then show ?case by (simp add: ascii_lits)
qed (auto simp: ascii_py_int_str ascii_json_str, simp_all add: ascii_print_def)

lemma json_dumps_one_line: "floats_ok v \<Longrightarrow> CHR 0x0A \<notin> set (json_dumps v)"
  using json_dumps_ascii [of v] by (auto simp: list_all_iff ascii_print_def)

lemma py_str_simps [simp]:
  "py_str PNone = ''None''" "py_str (PBool b) = (if b then ''True'' else ''False'')"
  "py_str (PInt i) = py_int_str i" "py_str (PFloat r) = r"
  by simp_all

end
