(* ===== verification/PyJsonParse.thy ===== *)
theory PyJsonParse
  imports PyJson "HOL-Library.Sublist"
begin

text \<open>
  \<open>json.loads\<close> of the standard library, the way its C scanner reads a text: white space, strict strings
  with their escapes, numbers, the constants (\<open>NaN\<close> and the infinities included), arrays, and objects
  whose later duplicate keys win.  The rounding of a decimal numeral to a \<open>float\<close> is the parameter
  \<open>ft\<close>, from the numeral to the \<open>repr\<close> of the \<open>float\<close>.

  Characters are those up to U+00FF: a \<open>\u\<close> escape above is the outcome \<open>Wide\<close>, about which nothing is
  said.  The recursion takes fuel, and \<open>No_fuel\<close> is its end; twice the length of the text is enough,
  and more changes nothing (\<open>scan_enough\<close>, \<open>scan_more\<close>).  Python's limit on nested calls is not modelled.
\<close>

datatype 'a parse = Parsed 'a string | Malformed | Wide | No_fuel

primrec and_scan :: "'a parse \<Rightarrow> ('a \<Rightarrow> string \<Rightarrow> 'b parse) \<Rightarrow> 'b parse" where
  "and_scan (Parsed v r) f = f v r"
| "and_scan Malformed f = Malformed"
| "and_scan Wide f = Wide"
| "and_scan No_fuel f = No_fuel"

section \<open>Tokens\<close>

definition is_json_ws :: "char \<Rightarrow> bool" where
  "is_json_ws c = (code c = 32 \<or> code c = 9 \<or> code c = 10 \<or> code c = 13)"

definition skip_ws :: "string \<Rightarrow> string" where
  "skip_ws s = dropWhile is_json_ws s"

definition unescape :: "char \<Rightarrow> char option" where
  "unescape e =
     (if e = CHR 0x22 \<or> e = CHR 0x5C \<or> e = CHR ''/'' then Some e
      else if e = CHR ''b'' then Some (char_of (8 :: nat))
      else if e = CHR ''f'' then Some (char_of (12 :: nat))
      else if e = CHR ''n'' then Some (char_of (10 :: nat))
      else if e = CHR ''r'' then Some (char_of (13 :: nat))
      else if e = CHR ''t'' then Some (char_of (9 :: nat))
      else None)"

definition hex4 :: "char \<Rightarrow> char \<Rightarrow> char \<Rightarrow> char \<Rightarrow> nat option" where
  "hex4 a b c d =
     (case (hex_digit a, hex_digit b, hex_digit c, hex_digit d) of
        (Some w, Some x, Some y, Some z) \<Rightarrow> Some (4096 * w + 256 * x + 16 * y + z)
      | _ \<Rightarrow> None)"

definition push :: "char \<Rightarrow> string parse \<Rightarrow> string parse" where
  "push c p = and_scan p (\<lambda>t r. Parsed (c # t) r)"

text \<open>The text after an opening quote, up to and with the closing one.\<close>

fun scan_string :: "string \<Rightarrow> string parse" where
  "scan_string [] = Malformed"
| "scan_string (c # cs) =
     (if c = CHR 0x22 then Parsed [] cs
      else if c = CHR 0x5C then
        (case cs of
           [] \<Rightarrow> Malformed
         | e # r \<Rightarrow>
             (if e = CHR ''u'' then
                (case r of
                   h1 # h2 # h3 # h4 # r' \<Rightarrow>
                     (case hex4 h1 h2 h3 h4 of
                        None \<Rightarrow> Malformed
                      | Some n \<Rightarrow> (if n < 256 then push (char_of n) (scan_string r') else Wide))
                 | _ \<Rightarrow> Malformed)
              else case unescape e of None \<Rightarrow> Malformed | Some x \<Rightarrow> push x (scan_string r)))
      else if code c < 32 then Malformed
      else push c (scan_string cs))"

definition frac_part :: "string \<Rightarrow> string" where
  "frac_part s =
     (case s of
        [] \<Rightarrow> []
      | c # r \<Rightarrow> (if c = CHR ''.'' \<and> takeWhile is_digit r \<noteq> [] then c # takeWhile is_digit r else []))"

definition exp_part :: "string \<Rightarrow> string" where
  "exp_part s =
     (case s of
        [] \<Rightarrow> []
      | c # r \<Rightarrow>
          (let sg = (case r of [] \<Rightarrow> [] | d # _ \<Rightarrow> (if d = CHR ''-'' \<or> d = CHR ''+'' then [d] else []));
               ds = takeWhile is_digit (drop (length sg) r)
           in if (c = CHR ''e'' \<or> c = CHR ''E'') \<and> ds \<noteq> [] then c # sg @ ds else []))"

definition int_part :: "string \<Rightarrow> string" where
  "int_part s = (case s of [] \<Rightarrow> [] | c # _ \<Rightarrow> (if c = CHR ''0'' then [c] else takeWhile is_digit s))"

definition scan_number :: "(string \<Rightarrow> string) \<Rightarrow> string \<Rightarrow> pyval parse" where
  "scan_number ft s =
     (let neg = py_startswith s ''-'';
          sg = (if neg then ''-'' else []);
          t = drop (length sg) s;
          ip = int_part t;
          r1 = drop (length ip) t;
          fp = frac_part r1;
          r2 = drop (length fp) r1;
          ep = exp_part r2;
          r3 = drop (length ep) r2
      in if ip = [] then Malformed
         else if fp = [] \<and> ep = [] then
           (if length ip > INT_MAX_STR_DIGITS then Malformed
            else Parsed (PInt (if neg then - int (dec_value ip) else int (dec_value ip))) r3)
         else Parsed (PFloat (ft (sg @ ip @ fp @ ep))) r3)"

text \<open>The constants, in the order the scanner tries them.\<close>

definition json_constants :: "(string \<times> pyval) list" where
  "json_constants =
     [(''null'', PNone), (''true'', PBool True), (''false'', PBool False), (''NaN'', PFloat ''nan''),
      (''Infinity'', PFloat ''inf''), (''-Infinity'', PFloat ''-inf'')]"

definition scan_constant :: "string \<Rightarrow> (pyval \<times> string) option" where
  "scan_constant s =
     map_option (\<lambda>(w, v). (v, drop (length w) s)) (find (\<lambda>(w, v). py_startswith s w) json_constants)"

section \<open>Values\<close>

fun scan_value :: "(string \<Rightarrow> string) \<Rightarrow> nat \<Rightarrow> string \<Rightarrow> pyval parse"
  and scan_items :: "(string \<Rightarrow> string) \<Rightarrow> nat \<Rightarrow> string \<Rightarrow> pyval list parse"
  and scan_members :: "(string \<Rightarrow> string) \<Rightarrow> nat \<Rightarrow> (string, pyval) dict \<Rightarrow> string \<Rightarrow> (string, pyval) dict parse" where
  "scan_value ft 0 s = No_fuel"
| "scan_value ft (Suc n) s =
     (case s of
        [] \<Rightarrow> Malformed
      | c # cs \<Rightarrow>
          (if c = CHR 0x22 then and_scan (scan_string cs) (\<lambda>t r. Parsed (PStr t) r)
           else if c = CHR ''{'' then
             (case skip_ws cs of
                [] \<Rightarrow> Malformed
              | d # r \<Rightarrow> (if d = CHR ''}'' then Parsed (PDict []) r
                          else and_scan (scan_members ft n [] (d # r)) (\<lambda>m r'. Parsed (PDict m) r')))
           else if c = CHR ''['' then
             (case skip_ws cs of
                [] \<Rightarrow> Malformed
              | d # r \<Rightarrow> (if d = CHR '']'' then Parsed (PList []) r
                          else and_scan (scan_items ft n (d # r)) (\<lambda>xs r'. Parsed (PList xs) r')))
           else case scan_constant s of
                  Some (v, r) \<Rightarrow> Parsed v r
                | None \<Rightarrow> scan_number ft s))"
| "scan_items ft 0 s = No_fuel"
| "scan_items ft (Suc n) s =
     and_scan (scan_value ft n s) (\<lambda>v r.
       case skip_ws r of
         [] \<Rightarrow> Malformed
       | d # r' \<Rightarrow>
           (if d = CHR '']'' then Parsed [v] r'
            else if d = CHR '','' then and_scan (scan_items ft n (skip_ws r')) (\<lambda>vs r''. Parsed (v # vs) r'')
            else Malformed))"
| "scan_members ft 0 acc s = No_fuel"
| "scan_members ft (Suc n) acc s =
     (case s of
        [] \<Rightarrow> Malformed
      | q # cs \<Rightarrow>
          (if q \<noteq> CHR 0x22 then Malformed
           else and_scan (scan_string cs) (\<lambda>k r.
             case skip_ws r of
               [] \<Rightarrow> Malformed
             | d # r1 \<Rightarrow>
                 (if d \<noteq> CHR '':'' then Malformed
                  else and_scan (scan_value ft n (skip_ws r1)) (\<lambda>v r2.
                    case skip_ws r2 of
                      [] \<Rightarrow> Malformed
                    | d2 # r3 \<Rightarrow>
                        (if d2 = CHR ''}'' then Parsed (AList.update k v acc) r3
                         else if d2 = CHR '','' then scan_members ft n (AList.update k v acc) (skip_ws r3)
                         else Malformed)))))) "

declare scan_string.simps [simp del] scan_value.simps [simp del] scan_items.simps [simp del] scan_members.simps [simp del]

lemmas scan_unfold = scan_value.simps(2) scan_items.simps(2) scan_members.simps(2)
lemmas scan_zero [simp] = scan_value.simps(1) scan_items.simps(1) scan_members.simps(1)

text \<open>
  The whole text: one value between white space.  Every failure is a \<open>ValueError\<close>
  (\<open>JSONDecodeError\<close> is one); \<^const>\<open>None\<close> is the outcome outside the character model.
\<close>

type_synonym 'a attempt = "(py_exn + 'a) option"

definition json_loads :: "(string \<Rightarrow> string) \<Rightarrow> string \<Rightarrow> pyval attempt" where
  "json_loads ft s =
     (case scan_value ft (2 * length s + 1) (skip_ws s) of
        Parsed v r \<Rightarrow> Some (if skip_ws r = [] then Inr v else Inl ValueError)
      | Malformed \<Rightarrow> Some (Inl ValueError)
      | Wide \<Rightarrow> None
      | No_fuel \<Rightarrow> None)"

section \<open>A scan consumes its text\<close>

lemma and_scan_Parsed: "and_scan p f = Parsed w r \<longleftrightarrow> (\<exists>v q. p = Parsed v q \<and> f v q = Parsed w r)"
  by (cases p) simp_all

lemma and_scan_No_fuel: "and_scan p f = No_fuel \<longleftrightarrow> p = No_fuel \<or> (\<exists>v q. p = Parsed v q \<and> f v q = No_fuel)"
  by (cases p) simp_all

lemma and_scan_Wide: "and_scan p f = Wide \<longleftrightarrow> p = Wide \<or> (\<exists>v q. p = Parsed v q \<and> f v q = Wide)"
  by (cases p) simp_all

lemma and_scanE [elim!]:
  "and_scan p f = Parsed w r \<Longrightarrow> (\<And>v q. p = Parsed v q \<Longrightarrow> f v q = Parsed w r \<Longrightarrow> P) \<Longrightarrow> P"
  by (auto simp: and_scan_Parsed)

lemma and_scan_WideE:
  "and_scan p f = Wide \<Longrightarrow> (p = Wide \<Longrightarrow> P) \<Longrightarrow> (\<And>v q. p = Parsed v q \<Longrightarrow> f v q = Wide \<Longrightarrow> P) \<Longrightarrow> P"
  by (auto simp: and_scan_Wide)

lemmas and_scan_iffs = and_scan_Parsed and_scan_No_fuel and_scan_Wide

lemma strict_suffix_Cons [simp]: "strict_suffix r (c # cs) \<longleftrightarrow> suffix r cs"
proof
  assume "strict_suffix r (c # cs)"
  then show "suffix r cs" by (auto simp: strict_suffix_def suffix_Cons)
next
  assume "suffix r cs"
  then have "length r \<le> length cs" "suffix r (c # cs)" by (auto simp: suffix_length_le suffix_ConsI)
  then show "strict_suffix r (c # cs)" by (auto simp: strict_suffix_def)
qed

lemma strict_suffix_drop: "n \<noteq> 0 \<Longrightarrow> s \<noteq> [] \<Longrightarrow> strict_suffix (drop n s) s"
  by (cases s; cases n) (simp_all add: suffix_drop)

lemmas suffix_trans = suffix_order.order_trans suffix_order.less_le_trans suffix_order.le_less_trans
  suffix_order.less_trans

lemma suffix_skip_ws: "suffix (skip_ws s) s"
  by (simp add: skip_ws_def suffix_dropWhile)

lemma length_skip_ws: "length (skip_ws s) \<le> length s"
  by (simp add: suffix_length_le suffix_skip_ws)

lemma skip_ws_tail: "skip_ws s = c # r \<Longrightarrow> strict_suffix r s"
  by (metis suffix_ConsD' suffix_skip_ws)

lemma skip_ws_suffix: "skip_ws s = c # r \<Longrightarrow> suffix q r \<Longrightarrow> strict_suffix q s"
  by (blast dest: skip_ws_tail intro: suffix_trans)

lemma skip_ws_start: "strict_suffix q (skip_ws s) \<Longrightarrow> strict_suffix q s"
  by (blast intro: suffix_trans suffix_skip_ws)

lemma push_Parsed: "push c p = Parsed w r \<longleftrightarrow> (\<exists>t. p = Parsed t r \<and> w = c # t)"
  by (cases p) (auto simp: push_def)

lemma push_fails [simp]: "push c p = No_fuel \<longleftrightarrow> p = No_fuel" "push c p = Wide \<longleftrightarrow> p = Wide"
  by (simp_all add: push_def and_scan_iffs)

lemma scan_string_rest: "scan_string s = Parsed t r \<Longrightarrow> strict_suffix r s"
proof (induction s arbitrary: t rule: length_induct)
  case (1 s)
  have IH: "suffix r s'" if "scan_string s' = Parsed t' r" "length s' < length s" for s' t'
    using 1 that by (auto intro: suffix_order.less_imp_le)
  show ?case
    using 1(2) by (cases s)
      (auto simp: scan_string.simps push_Parsed split: if_splits list.splits option.splits dest!: IH intro!: suffix_ConsI)
qed

lemma scan_string_total: "scan_string s \<noteq> No_fuel"
proof (induction s rule: length_induct)
  case (1 s)
  have IH: "scan_string s' \<noteq> No_fuel" if "length s' < length s" for s'
    using 1 that by blast
  show ?case
  proof (cases s)
    case (Cons c cs)
    show ?thesis
      unfolding Cons by (subst scan_string.simps) (simp add: IH Cons split: list.split option.split)
  qed (simp add: scan_string.simps)
qed

lemma scan_string_wide: "scan_string s = Wide \<Longrightarrow> CHR 0x5C \<in> set s"
proof (induction s rule: length_induct)
  case (1 s)
  have IH: "CHR 0x5C \<in> set s'" if "scan_string s' = Wide" "length s' < length s" for s'
    using 1 that by blast
  show ?case
    using 1(2) by (cases s) (auto simp: scan_string.simps split: if_splits list.splits option.splits dest!: IH)
qed

lemma scan_number_rest: "scan_number ft s = Parsed v r \<Longrightarrow> strict_suffix r s"
proof -
  assume r: "scan_number ft s = Parsed v r"
  define sg where "sg = (if py_startswith s ''-'' then ''-'' else [])"
  define t where "t = drop (length sg) s"
  have ip: "int_part t \<noteq> []"
    using r by (auto simp: scan_number_def Let_def sg_def t_def split: if_splits)
  then have "t \<noteq> []" "strict_suffix (drop (length (int_part t)) t) t"
    by (auto simp: int_part_def intro!: strict_suffix_drop)
  moreover have "suffix r (drop (length (int_part t)) t)"
    using r by (auto simp: scan_number_def Let_def sg_def t_def suffix_drop drop_drop [symmetric] simp del: drop_drop split: if_splits intro: suffix_order.order_trans [OF suffix_drop])
  moreover have "suffix t s" by (simp add: t_def suffix_drop)
  ultimately show ?thesis by (blast intro: suffix_trans)
qed

lemma scan_constant_rest: "scan_constant s = Some (v, r) \<Longrightarrow> strict_suffix r s"
  by (auto simp: scan_constant_def json_constants_def py_startswith_def split: if_splits
      intro!: strict_suffix_drop)

lemma scan_number_total: "scan_number ft s \<noteq> No_fuel" "scan_number ft s \<noteq> Wide"
  by (simp_all add: scan_number_def Let_def)

lemma scan_rest_all:
  "(\<forall>s v r. scan_value ft n s = Parsed v r \<longrightarrow> strict_suffix r s)
   \<and> (\<forall>s v r. scan_items ft n s = Parsed v r \<longrightarrow> strict_suffix r s)
   \<and> (\<forall>acc s v r. scan_members ft n acc s = Parsed v r \<longrightarrow> strict_suffix r s)"
proof (induction n)
  case (Suc n)
  then have IH: "scan_value ft n s = Parsed v r \<Longrightarrow> strict_suffix r s"
    "scan_items ft n s = Parsed vs r \<Longrightarrow> strict_suffix r s"
    "scan_members ft n acc s = Parsed m r \<Longrightarrow> strict_suffix r s" for s v r vs acc m
    by blast+
  have "strict_suffix r s" if "scan_value ft (Suc n) s = Parsed v r" for s v r
    using that by (auto simp: scan_unfold split: if_splits list.splits option.splits
        dest!: scan_string_rest scan_constant_rest scan_number_rest IH(2,3) intro: suffix_order.less_imp_le
          dest: skip_ws_suffix)
  moreover have "strict_suffix r s" if "scan_items ft (Suc n) s = Parsed v r" for s v r
    using that by (auto simp: scan_unfold split: if_splits list.splits
        dest!: IH(1,2) skip_ws_tail skip_ws_start)
  moreover have "strict_suffix r s" if "scan_members ft (Suc n) acc s = Parsed v r" for acc s v r
    using that by (auto simp: scan_unfold split: if_splits list.splits
        dest!: IH(1,3) scan_string_rest skip_ws_tail skip_ws_start simp del: strict_suffix_Cons)
      (meson suffix_order.less_trans suffix_ConsD' suffix_order.order_refl)+
  ultimately show ?case by blast
qed simp

lemmas scan_rest = scan_rest_all [THEN conjunct1, rule_format] scan_rest_all [THEN conjunct2, THEN conjunct1, rule_format]
  scan_rest_all [THEN conjunct2, THEN conjunct2, rule_format]

lemmas scan_shorter = scan_rest [THEN suffix_length_less]
lemmas string_shorter = scan_string_rest [THEN suffix_length_less]
lemmas skip_shorter = skip_ws_tail [THEN suffix_length_less]

section \<open>Fuel\<close>

lemma scan_enough_all:
  "(\<forall>s. 2 * length s < n \<longrightarrow> scan_value ft n s \<noteq> No_fuel)
   \<and> (\<forall>s. 2 * length s + 1 < n \<longrightarrow> scan_items ft n s \<noteq> No_fuel)
   \<and> (\<forall>acc s. 2 * length s + 1 < n \<longrightarrow> scan_members ft n acc s \<noteq> No_fuel)"
proof (induction n)
  case (Suc n)
  then have IH: "2 * length s < n \<Longrightarrow> scan_value ft n s \<noteq> No_fuel"
    "2 * length s + 1 < n \<Longrightarrow> scan_items ft n s \<noteq> No_fuel"
    "2 * length s + 1 < n \<Longrightarrow> scan_members ft n acc s \<noteq> No_fuel" for s acc
    by blast+
  have "scan_value ft (Suc n) s \<noteq> No_fuel" if "2 * length s < Suc n" for s
  proof (cases s)
    case (Cons c cs)
    have "2 * length (d # r) + 1 < n" if "skip_ws cs = d # r" for d r
      using \<open>2 * length s < Suc n\<close> that length_skip_ws [of cs] Cons by simp
    then show ?thesis
      using IH(2,3) Cons scan_number_total scan_string_total
      by (simp add: scan_unfold and_scan_No_fuel split: list.split option.split)
  qed (simp add: scan_unfold)
  moreover have "scan_items ft (Suc n) s \<noteq> No_fuel" if "2 * length s + 1 < Suc n" for s
  proof -
    have "scan_items ft n (skip_ws r') \<noteq> No_fuel"
      if "scan_value ft n s = Parsed v r" "skip_ws r = d # r'" for v r d r'
      using scan_shorter(1) [OF that(1)] skip_shorter [OF that(2)] length_skip_ws [of r'] \<open>2 * length s + 1 < Suc n\<close>
      by (intro IH(2)) linarith
    then show ?thesis
      using IH(1) [of s] that by (auto simp: scan_unfold and_scan_No_fuel split: list.splits)
  qed
  moreover have "scan_members ft (Suc n) acc s \<noteq> No_fuel" if "2 * length s + 1 < Suc n" for acc s
  proof (cases s)
    case (Cons c cs)
    have val: "scan_value ft n (skip_ws r1) \<noteq> No_fuel"
      if "scan_string cs = Parsed k r" "skip_ws r = d # r1" for k r d r1
      using string_shorter [OF that(1)] skip_shorter [OF that(2)] length_skip_ws [of r1]
        \<open>2 * length s + 1 < Suc n\<close> by (intro IH) (simp add: Cons)
    moreover have "scan_members ft n acc' (skip_ws r3) \<noteq> No_fuel"
      if "scan_string cs = Parsed k r" "skip_ws r = d # r1" "scan_value ft n (skip_ws r1) = Parsed v r2"
        "skip_ws r2 = d' # r3" for k r d r1 v r2 d' r3 acc'
      using string_shorter [OF that(1)] skip_shorter [OF that(2)] length_skip_ws [of r1] length_skip_ws [of r3]
        scan_shorter(1) [OF that(3)] skip_shorter [OF that(4)] \<open>2 * length s + 1 < Suc n\<close>
      by (intro IH) (simp add: Cons)
    ultimately show ?thesis
      using scan_string_total by (auto simp: Cons scan_unfold and_scan_No_fuel split: list.splits)
  qed (simp add: scan_unfold)
  ultimately show ?case by blast
qed simp

lemmas scan_enough = scan_enough_all [THEN conjunct1, rule_format] scan_enough_all [THEN conjunct2, THEN conjunct1, rule_format]
  scan_enough_all [THEN conjunct2, THEN conjunct2, rule_format]

lemma and_scan_more:
  assumes "and_scan p f \<noteq> No_fuel" "p \<noteq> No_fuel \<Longrightarrow> p' = p"
    and "\<And>v q. p = Parsed v q \<Longrightarrow> f v q \<noteq> No_fuel \<Longrightarrow> f' v q = f v q"
  shows "and_scan p' f' = and_scan p f"
  using assms by (cases p) simp_all

lemma scan_step_all:
  "(\<forall>s. scan_value ft n s \<noteq> No_fuel \<longrightarrow> scan_value ft (Suc n) s = scan_value ft n s)
   \<and> (\<forall>s. scan_items ft n s \<noteq> No_fuel \<longrightarrow> scan_items ft (Suc n) s = scan_items ft n s)
   \<and> (\<forall>acc s. scan_members ft n acc s \<noteq> No_fuel \<longrightarrow> scan_members ft (Suc n) acc s = scan_members ft n acc s)"
proof (induction n)
  case (Suc n)
  then have IH: "scan_value ft n s \<noteq> No_fuel \<Longrightarrow> scan_value ft (Suc n) s = scan_value ft n s"
    "scan_items ft n s \<noteq> No_fuel \<Longrightarrow> scan_items ft (Suc n) s = scan_items ft n s"
    "scan_members ft n acc s \<noteq> No_fuel \<Longrightarrow> scan_members ft (Suc n) acc s = scan_members ft n acc s" for s acc
    by blast+
  have "scan_value ft (Suc (Suc n)) s = scan_value ft (Suc n) s" if "scan_value ft (Suc n) s \<noteq> No_fuel" for s
    using that unfolding scan_value.simps(2) [of ft "Suc n" s] scan_value.simps(2) [of ft n s]
    by (auto simp: IH and_scan_No_fuel intro!: and_scan_more split: list.splits if_splits)
  moreover have "scan_items ft (Suc (Suc n)) s = scan_items ft (Suc n) s" if "scan_items ft (Suc n) s \<noteq> No_fuel" for s
    using that unfolding scan_items.simps(2) [of ft "Suc n" s] scan_items.simps(2) [of ft n s]
    by (rule and_scan_more) (auto simp: IH and_scan_No_fuel intro!: and_scan_more split: list.splits if_splits)
  moreover have "scan_members ft (Suc (Suc n)) acc s = scan_members ft (Suc n) acc s"
    if "scan_members ft (Suc n) acc s \<noteq> No_fuel" for acc s
    using that unfolding scan_members.simps(2) [of ft "Suc n" acc s] scan_members.simps(2) [of ft n acc s]
    by (auto simp: IH intro!: and_scan_more split: list.splits if_splits)
  ultimately show ?case by blast
qed simp

lemma scan_more_all:
  "(scan_value ft n s \<noteq> No_fuel \<longrightarrow> scan_value ft (n + k) s = scan_value ft n s)
   \<and> (scan_items ft n s \<noteq> No_fuel \<longrightarrow> scan_items ft (n + k) s = scan_items ft n s)
   \<and> (scan_members ft n acc s \<noteq> No_fuel \<longrightarrow> scan_members ft (n + k) acc s = scan_members ft n acc s)"
proof (induction k)
  case (Suc k)
  then show ?case using scan_step_all [of ft "n + k"] by simp
qed simp

lemma scan_more:
  assumes "n \<le> m"
  shows "scan_value ft n s \<noteq> No_fuel \<Longrightarrow> scan_value ft m s = scan_value ft n s"
    and "scan_items ft n s \<noteq> No_fuel \<Longrightarrow> scan_items ft m s = scan_items ft n s"
    and "scan_members ft n acc s \<noteq> No_fuel \<Longrightarrow> scan_members ft m acc s = scan_members ft n acc s"
proof -
  obtain k where "m = n + k" using assms le_Suc_ex by blast
  then show "scan_value ft n s \<noteq> No_fuel \<Longrightarrow> scan_value ft m s = scan_value ft n s"
    "scan_items ft n s \<noteq> No_fuel \<Longrightarrow> scan_items ft m s = scan_items ft n s"
    "scan_members ft n acc s \<noteq> No_fuel \<Longrightarrow> scan_members ft m acc s = scan_members ft n acc s"
    using scan_more_all [of ft n s k acc] by auto
qed

text \<open>The outcome outside the character model needs an escape.\<close>

lemma scan_wide_all:
  "(\<forall>s. scan_value ft n s = Wide \<longrightarrow> CHR 0x5C \<in> set s)
   \<and> (\<forall>s. scan_items ft n s = Wide \<longrightarrow> CHR 0x5C \<in> set s)
   \<and> (\<forall>acc s. scan_members ft n acc s = Wide \<longrightarrow> CHR 0x5C \<in> set s)"
proof (induction n)
  case (Suc n)
  then have IH: "scan_value ft n s = Wide \<Longrightarrow> CHR 0x5C \<in> set s" "scan_items ft n s = Wide \<Longrightarrow> CHR 0x5C \<in> set s"
    "scan_members ft n acc s = Wide \<Longrightarrow> CHR 0x5C \<in> set s" for s acc
    by blast+
  have ws: "set (skip_ws s) \<subseteq> set s" for s by (simp add: set_mono_suffix suffix_skip_ws)
  have "CHR 0x5C \<in> set s" if "scan_value ft (Suc n) s = Wide" for s
    using that ws [of "tl s"] by (auto simp: scan_unfold scan_number_total split: if_splits list.splits option.splits
        elim!: and_scan_WideE dest!: scan_string_wide IH(2,3))
  moreover have "CHR 0x5C \<in> set s" if "scan_items ft (Suc n) s = Wide" for s
  proof -
    have "CHR 0x5C \<in> set s" if "scan_value ft n s = Parsed v r" "skip_ws r = d # r'" "scan_items ft n (skip_ws r') = Wide" for v r d r'
      using IH(2) [OF that(3)] that scan_rest(1) [OF that(1)] skip_ws_tail [OF that(2)]
      by (meson set_mono_suffix strict_suffix_set_subset subsetD ws)
    then show ?thesis
      using that by (auto simp: scan_unfold split: if_splits list.splits elim!: and_scan_WideE intro: IH(1))
  qed
  moreover have "CHR 0x5C \<in> set s" if "scan_members ft (Suc n) acc s = Wide" for acc s
  proof (cases s)
    case (Cons c cs)
    have sub: "set r1 \<subseteq> set cs" if "scan_string cs = Parsed k r" "skip_ws r = d # r1" for k r d r1
      using scan_string_rest [OF that(1)] skip_ws_tail [OF that(2)]
      by (meson strict_suffix_set_subset order_trans)
    have "CHR 0x5C \<in> set cs"
      if "scan_string cs = Parsed k r" "skip_ws r = d # r1" "scan_value ft n (skip_ws r1) = Wide" for k r d r1
      using IH(1) [OF that(3)] sub [OF that(1,2)] ws by blast
    moreover have "CHR 0x5C \<in> set cs"
      if "scan_string cs = Parsed k r" "skip_ws r = d # r1" "scan_value ft n (skip_ws r1) = Parsed v r2"
        "skip_ws r2 = d' # r3" "scan_members ft n acc' (skip_ws r3) = Wide" for k r d r1 v r2 d' r3 acc'
      using IH(3) [OF that(5)] sub [OF that(1,2)] ws [of r3] ws [of r1] scan_rest(1) [OF that(3)] skip_ws_tail [OF that(4)]
      by (meson strict_suffix_set_subset subsetD)
    ultimately show ?thesis
      using that by (auto simp: Cons scan_unfold split: if_splits list.splits elim!: and_scan_WideE dest: scan_string_wide)
  qed (use that in \<open>simp add: scan_unfold\<close>)
  ultimately show ?case by blast
qed simp

text \<open>Without a backslash in the text \<open>json.loads\<close> returns a value or raises \<open>ValueError\<close>.\<close>

lemma json_loads_total: "CHR 0x5C \<notin> set s \<Longrightarrow> \<exists>r. json_loads ft s = Some r"
proof -
  assume "CHR 0x5C \<notin> set s"
  then have "scan_value ft (2 * length s + 1) (skip_ws s) \<noteq> Wide"
    using scan_wide_all [of ft "2 * length s + 1"] set_mono_suffix [OF suffix_skip_ws] by blast
  moreover have "scan_value ft (2 * length s + 1) (skip_ws s) \<noteq> No_fuel"
    using length_skip_ws [of s] by (intro scan_enough) simp
  ultimately show ?thesis
    by (auto simp: json_loads_def split: parse.split)
qed

lemma json_loads_raises: "json_loads ft s = Some (Inl e) \<Longrightarrow> e = ValueError"
  by (auto simp: json_loads_def split: parse.splits if_splits)

section \<open>Dictionaries of a parsed value\<close>

fun wf_pyval :: "pyval \<Rightarrow> bool" where
  "wf_pyval (PList xs) = list_all wf_pyval xs"
| "wf_pyval (PDict kvs) = (wf_dict kvs \<and> list_all (\<lambda>kv. wf_pyval (snd kv)) kvs)"
| "wf_pyval _ = True"

lemma scan_wf_all:
  "(\<forall>s v r. scan_value ft n s = Parsed v r \<longrightarrow> wf_pyval v)
   \<and> (\<forall>s vs r. scan_items ft n s = Parsed vs r \<longrightarrow> list_all wf_pyval vs)
   \<and> (\<forall>acc s m r. scan_members ft n acc s = Parsed m r \<longrightarrow> wf_pyval (PDict acc) \<longrightarrow> wf_pyval (PDict m))"
proof (induction n)
  case (Suc n)
  then have IH: "scan_value ft n s = Parsed v r \<Longrightarrow> wf_pyval v" "scan_items ft n s = Parsed vs r \<Longrightarrow> list_all wf_pyval vs"
    "scan_members ft n acc s = Parsed m r \<Longrightarrow> wf_pyval (PDict acc) \<Longrightarrow> wf_pyval (PDict m)" for s v r vs acc m
    by blast+
  have number: "scan_number ft s = Parsed v r \<Longrightarrow> wf_pyval v" for s v r
    by (auto simp: scan_number_def Let_def split: if_splits)
  have const: "scan_constant s = Some (v, r) \<Longrightarrow> wf_pyval v" for s v r
    by (auto simp: scan_constant_def json_constants_def split: if_splits)
  have "wf_pyval v" if "scan_value ft (Suc n) s = Parsed v r" for s v r
    using that by (auto simp: scan_unfold split: if_splits list.splits option.splits dest!: IH(2) IH(3) number const)
  moreover have "list_all wf_pyval vs" if "scan_items ft (Suc n) s = Parsed vs r" for s vs r
    using that by (auto simp: scan_unfold split: if_splits list.splits dest!: IH(1,2))
  moreover have "wf_pyval (PDict m)" if "scan_members ft (Suc n) acc s = Parsed m r" "wf_pyval (PDict acc)" for acc s m r
    using that by (auto simp: scan_unfold list_all_update wf_dict_update split: if_splits list.splits dest!: IH(1,3))
  ultimately show ?case by blast
qed simp

lemma json_loads_wf: "json_loads ft s = Some (Inr v) \<Longrightarrow> wf_pyval v"
  using scan_wf_all [of ft "2 * length s + 1"]
  by (auto simp: json_loads_def split: parse.splits if_splits)

end
