(* ===== verification/PyJsonRound.thy ===== *)
theory PyJsonRound
  imports PyJsonParse
begin

text \<open>
  \<open>json.loads\<close> reads what \<open>json.dumps\<close> wrote: one lemma per form of value, over every text that may
  follow it, joined by induction on the value (\<open>dumps_reads\<close>) into \<open>loads_dumps\<close>.  The values are those
  without floats whose dictionaries have distinct keys and whose integers have at most 4300 digits.
\<close>

section \<open>Reading what json.dumps wrote\<close>

lemma hex_digit_hex_char: "d < 16 \<Longrightarrow> hex_digit (hex_char d) = Some d"
  by (simp add: hex_char_def hex_digit_def is_digit_def)

lemma hex4_hex2: "hex4 (CHR ''0'') (CHR ''0'') (hex_char (code c div 16)) (hex_char (code c mod 16)) = Some (code c)"
proof -
  have "code c div 16 < 16" by (rule less_mult_imp_div_less) simp
  then show ?thesis by (simp add: hex4_def hex_digit_hex_char, simp add: hex_digit_def is_digit_def)
qed

lemma code_is: "code c = code d \<longleftrightarrow> c = d"
  by simp

lemma code_char: "code c = n \<Longrightarrow> char_of n = c"
  by (metis char_of_char)

lemma scan_json_char: "scan_string (json_char c @ r) = push c (scan_string r)"
proof -
  consider "c = CHR 0x22" | "c = CHR 0x5C" | "code c = 10" | "code c = 13" | "code c = 9" | "code c = 8" | "code c = 12"
    | "32 \<le> code c" "code c \<le> 126" "c \<noteq> CHR 0x22" "c \<noteq> CHR 0x5C"
    | "code c < 32 \<or> 126 < code c" "code c \<notin> {10, 13, 9, 8, 12}"
    by fastforce
  then show ?thesis
  proof cases
    case 9
    then have "json_char c = [CHR 0x5C, CHR ''u'', CHR ''0'', CHR ''0''] @ hex2 c"
      by (auto simp: json_char_def)
    moreover have "code c < 256" by simp
    ultimately show ?thesis
      by (simp add: scan_string.simps(2) [of "CHR 0x5C"] hex2_def hex4_hex2)
  next
    case 8
    then have "json_char c = [c]"
      using code_is [of c "CHR 0x22"] code_is [of c "CHR 0x5C"] by (auto simp: json_char_def)
    then show ?thesis using 8 by (simp add: scan_string.simps(2) [of c])
  qed (auto simp: json_char_def scan_string.simps(2) [of "CHR 0x5C"] unescape_def char_eval dest: code_char)
qed

lemma scan_json_str: "scan_string (concat (map json_char s) @ CHR 0x22 # r) = Parsed s r"
  by (induction s) (simp_all add: scan_json_char push_Parsed, simp add: scan_string.simps)

fun dumpable :: "pyval \<Rightarrow> bool" where
  "dumpable (PInt i) = (length (dec_digits (nat \<bar>i\<bar>)) \<le> INT_MAX_STR_DIGITS)"
| "dumpable (PFloat r) = False"
| "dumpable (PList xs) = list_all dumpable xs"
| "dumpable (PDict kvs) = (wf_dict kvs \<and> list_all (\<lambda>kv. dumpable (snd kv)) kvs)"
| "dumpable _ = True"

definition number_ends :: "string \<Rightarrow> bool" where
  "number_ends r = (case r of [] \<Rightarrow> True | c # _ \<Rightarrow> \<not> is_digit c \<and> c \<notin> set ''.eE'')"

lemma dec_digits_start:
  "\<exists>c cs. dec_digits n = c # cs \<and> is_digit c \<and> (c = CHR ''0'' \<longrightarrow> n = 0)"
proof (induction n rule: dec_digits.induct)
  case (1 n)
  show ?case
  proof (cases "n < 10")
    case True
    have "char_of (48 + n) = CHR ''0'' \<longleftrightarrow> n = 0"
      using True code_is [of "char_of (48 + n)" "CHR ''0''"] by auto
    then show ?thesis using True by (subst dec_digits.simps) (simp add: is_digit_def)
  next
    case False
    then show ?thesis using 1 by (subst dec_digits.simps) auto
  qed
qed

lemma frac_exp_none: "number_ends r \<Longrightarrow> frac_part r = [] \<and> exp_part r = []"
  by (auto simp: number_ends_def frac_part_def exp_part_def Let_def split: list.splits)

lemma int_part_digits: "number_ends r \<Longrightarrow> int_part (dec_digits n @ r) = dec_digits n"
proof -
  assume r: "number_ends r"
  obtain c cs where c: "dec_digits n = c # cs" "is_digit c" "c = CHR ''0'' \<longrightarrow> n = 0"
    using dec_digits_start by blast
  have "takeWhile is_digit r = []"
    using r by (auto simp: number_ends_def split: list.splits)
  then have "takeWhile is_digit (dec_digits n @ r) = dec_digits n"
    using is_digit_dec_digits [of n] by (simp add: takeWhile_append2 list_all_iff)
  moreover have "dec_digits 0 = ''0''" by (simp add: dec_digits.simps char_eval)
  ultimately show ?thesis using c by (auto simp: int_part_def)
qed

lemma scan_number_int:
  assumes "length (dec_digits (nat \<bar>i\<bar>)) \<le> INT_MAX_STR_DIGITS" "number_ends r"
  shows "scan_number ft (py_int_str i @ r) = Parsed (PInt i) r"
proof (cases "i < 0")
  case True
  then show ?thesis
    using assms by (simp add: scan_number_def py_int_str_def py_startswith_def int_part_digits frac_exp_none)
next
  case False
  obtain c cs where c: "dec_digits (nat i) = c # cs" "is_digit c"
    using dec_digits_start by blast
  then have "c \<noteq> CHR ''-''" by (auto simp: is_digit_def)
  then have no_sign: "\<not> py_startswith (dec_digits (nat i) @ r) ''-''"
    using c by (simp add: py_startswith_def)
  have "\<bar>i\<bar> = i" using False by simp
  with assms(1) have "length (dec_digits (nat i)) \<le> INT_MAX_STR_DIGITS" by (simp only:)
  then show ?thesis
    using False unfolding scan_number_def py_int_str_def Let_def
    by (simp add: no_sign int_part_digits [OF assms(2)] frac_exp_none [OF assms(2)])
qed


lemma dumps_start: "dumpable v \<Longrightarrow> \<exists>c cs. json_dumps v = c # cs \<and> \<not> is_json_ws c \<and> c \<noteq> CHR '']''"
proof (cases v)
  case (PInt i)
  then show ?thesis
    using dec_digits_start [of "nat i"] dec_digits_start [of "nat (- i)"]
    by (auto simp: py_int_str_def is_json_ws_def is_digit_def)
qed (auto simp: json_str_def is_json_ws_def)

lemma skip_dumps: "dumpable v \<Longrightarrow> skip_ws (json_dumps v @ r) = json_dumps v @ r"
  using dumps_start [of v] by (auto simp: skip_ws_def)

lemma skip_ws_simps [simp]:
  "skip_ws [] = []" "skip_ws (CHR '' '' # r) = skip_ws r" "skip_ws (CHR '','' # r) = CHR '','' # r"
  "skip_ws (CHR '':'' # r) = CHR '':'' # r" "skip_ws (CHR '']'' # r) = CHR '']'' # r"
  "skip_ws (CHR ''}'' # r) = CHR ''}'' # r" "skip_ws (CHR 0x22 # r) = CHR 0x22 # r"
  by (simp_all add: skip_ws_def is_json_ws_def)

lemma number_ends_simps [simp]:
  "number_ends []" "number_ends (CHR '','' # r)" "number_ends (CHR '']'' # r)" "number_ends (CHR ''}'' # r)"
  by (simp_all add: number_ends_def is_digit_def)

definition reads :: "(string \<Rightarrow> string) \<Rightarrow> pyval \<Rightarrow> bool" where
  "reads ft v \<longleftrightarrow> (\<forall>r. number_ends r \<longrightarrow> (\<exists>n. scan_value ft n (json_dumps v @ r) = Parsed v r))"

lemma readsE:
  assumes "reads ft v" "number_ends r"
  obtains n where "\<And>m. n \<le> m \<Longrightarrow> scan_value ft m (json_dumps v @ r) = Parsed v r"
  using assms scan_more(1) unfolding reads_def by (metis parse.distinct(5))

lemma scan_items_dumps:
  assumes "xs \<noteq> []" "list_all dumpable xs" "list_all (reads ft) xs"
  shows "\<exists>n. scan_items ft n (py_intersperse '', '' (map json_dumps xs) @ CHR '']'' # r) = Parsed xs r"
  using assms
proof (induction xs rule: list_nonempty_induct)
  case (single x)
  have "number_ends (CHR '']'' # r)" by simp
  then obtain n where "\<And>m. n \<le> m \<Longrightarrow> scan_value ft m (json_dumps x @ CHR '']'' # r) = Parsed x (CHR '']'' # r)"
    using single readsE by (metis list.pred_inject(2))
  then show ?case by (intro exI [of _ "Suc n"]) (simp add: scan_unfold)
next
  case (cons x xs)
  let ?t = "py_intersperse '', '' (map json_dumps xs) @ CHR '']'' # r"
  obtain y ys where xs: "xs = y # ys" using cons(1) by (cases xs) auto
  have whole: "py_intersperse '', '' (map json_dumps (x # xs)) @ CHR '']'' # r = json_dumps x @ CHR '','' # CHR '' '' # ?t"
    by (simp add: xs)
  have ws: "skip_ws ?t = ?t"
    using cons.prems(1) skip_dumps [of y] by (cases ys) (simp_all add: xs)
  obtain n where n: "\<And>m. n \<le> m \<Longrightarrow> scan_value ft m (json_dumps x @ CHR '','' # CHR '' '' # ?t) = Parsed x (CHR '','' # CHR '' '' # ?t)"
    using cons.prems readsE [of ft x "CHR '','' # CHR '' '' # ?t"] by auto
  obtain k where k: "scan_items ft k ?t = Parsed xs r"
    using cons by auto
  then have "scan_items ft (max n k) ?t = Parsed xs r"
    using scan_more(2) [of k "max n k" ft ?t] by simp
  then show ?case
    unfolding whole by (intro exI [of _ "Suc (max n k)"]) (simp add: scan_unfold n ws)
qed

lemma scan_members_step:
  "scan_members ft (Suc n) acc (CHR 0x22 # concat (map json_char k) @ CHR 0x22 # CHR '':'' # CHR '' '' # s) =
     and_scan (scan_value ft n (skip_ws s)) (\<lambda>v r2.
       case skip_ws r2 of
         [] \<Rightarrow> Malformed
       | d # r3 \<Rightarrow>
           (if d = CHR ''}'' then Parsed (AList.update k v acc) r3
            else if d = CHR '','' then scan_members ft n (AList.update k v acc) (skip_ws r3)
            else Malformed))"
  by (simp add: scan_unfold scan_json_str)

lemma scan_members_dumps:
  assumes "kvs \<noteq> []" "list_all (\<lambda>kv. dumpable (snd kv)) kvs" "list_all (\<lambda>kv. reads ft (snd kv)) kvs"
    and "distinct (keys kvs)" "set (keys kvs) \<inter> set (keys acc) = {}"
  shows "\<exists>n. scan_members ft n acc
     (py_intersperse '', '' (map (\<lambda>kv. json_str (fst kv) @ '': '' @ json_dumps (snd kv)) kvs) @ CHR ''}'' # r)
     = Parsed (acc @ kvs) r"
  using assms
proof (induction kvs arbitrary: acc rule: list_nonempty_induct)
  case (single kv)
  obtain k v where kv: "kv = (k, v)" by force
  obtain n where n: "\<And>m. n \<le> m \<Longrightarrow> scan_value ft m (json_dumps v @ CHR ''}'' # r) = Parsed v (CHR ''}'' # r)"
    using single readsE [of ft v "CHR ''}'' # r"] by (auto simp: kv)
  show ?case
    using single n skip_dumps [of v]
    by (intro exI [of _ "Suc n"]) (simp add: scan_unfold kv json_str_def scan_json_str dict_update_new)
next
  case (cons kv kvs)
  obtain k v where kv: "kv = (k, v)" by force
  let ?f = "\<lambda>kv. json_str (fst kv) @ '': '' @ json_dumps (snd kv)"
  define t where "t = py_intersperse '', '' (map ?f kvs) @ CHR ''}'' # r"
  obtain kv' kvs' where kvs: "kvs = kv' # kvs'" using cons(1) by (cases kvs) auto
  have whole: "py_intersperse '', '' (map ?f (kv # kvs)) @ CHR ''}'' # r
      = CHR 0x22 # concat (map json_char k) @ CHR 0x22 # CHR '':'' # CHR '' '' # json_dumps v @ CHR '','' # CHR '' '' # t"
    by (simp add: kvs kv json_str_def t_def)
  have ws: "skip_ws t = t"
    by (cases kvs') (simp_all add: kvs json_str_def t_def)
  obtain n where n: "\<And>m. n \<le> m \<Longrightarrow> scan_value ft m (json_dumps v @ CHR '','' # CHR '' '' # t) = Parsed v (CHR '','' # CHR '' '' # t)"
    using cons.prems readsE [of ft v "CHR '','' # CHR '' '' # t"] by (auto simp: kv)
  obtain i where "scan_members ft i (acc @ [kv]) t = Parsed ((acc @ [kv]) @ kvs) r"
    using cons.IH [of "acc @ [kv]"] cons.prems unfolding t_def by auto
  then have i: "scan_members ft (max n i) (acc @ [kv]) t = Parsed (acc @ kv # kvs) r"
    using scan_more(3) [of i "max n i" ft "acc @ [kv]" t] by simp
  have upd: "AList.update k v acc = acc @ [kv]"
    using cons.prems by (simp add: kv dict_update_new)
  have skip: "skip_ws (json_dumps v @ q) = json_dumps v @ q" for q
    using cons.prems by (simp add: skip_dumps kv)
  show ?case
    unfolding whole
    by (rule exI [of _ "Suc (max n i)"]) (simp add: scan_members_step n ws i upd skip)
qed

lemma scan_quote: "scan_value ft (Suc n) (CHR 0x22 # s) = and_scan (scan_string s) (\<lambda>t r. Parsed (PStr t) r)"
  by (simp add: scan_unfold)

lemma scan_word:
  "scan_value ft (Suc n) (''null'' @ r) = Parsed PNone r"
  "scan_value ft (Suc n) (''true'' @ r) = Parsed (PBool True) r"
  "scan_value ft (Suc n) (''false'' @ r) = Parsed (PBool False) r"
  by (simp_all add: scan_unfold scan_constant_def json_constants_def py_startswith_def)

lemma int_str_start:
  "\<exists>c cs. py_int_str i = c # cs \<and> (c = CHR ''-'' \<and> (\<exists>d ds. cs = d # ds \<and> is_digit d) \<or> is_digit c)"
  using dec_digits_start [of "nat i"] dec_digits_start [of "nat (- i)"]
  by (cases "i < 0") (fastforce simp: py_int_str_def)+

lemma scan_int:
  assumes "length (dec_digits (nat \<bar>i\<bar>)) \<le> INT_MAX_STR_DIGITS" "number_ends r"
  shows "scan_value ft (Suc n) (py_int_str i @ r) = Parsed (PInt i) r"
proof -
  obtain c cs where c: "py_int_str i = c # cs" "c = CHR ''-'' \<and> (\<exists>d ds. cs = d # ds \<and> is_digit d) \<or> is_digit c"
    using int_str_start [of i] by auto
  from c(2) have "scan_constant (py_int_str i @ r) = None"
  proof
    assume "is_digit c"
    then have "\<forall>d \<in> set ''ntfNI-''. d \<noteq> c" by (auto simp: is_digit_def)
    then show ?thesis by (simp add: c(1) scan_constant_def json_constants_def py_startswith_def)
  next
    assume m: "c = CHR ''-'' \<and> (\<exists>d ds. cs = d # ds \<and> is_digit d)"
    then obtain d ds where "cs = d # ds" "is_digit d" by blast
    moreover from this have "CHR ''I'' \<noteq> d" by (auto simp: is_digit_def)
    ultimately show ?thesis using m by (simp add: c(1) scan_constant_def json_constants_def py_startswith_def)
  qed
  moreover have "c \<noteq> CHR 0x22" "c \<noteq> CHR ''{''" "c \<noteq> CHR ''[''"
    using c(2) by (auto simp: is_digit_def)
  ultimately show ?thesis
    using scan_number_int [OF assms, of ft] c(1) by (simp add: scan_unfold)
qed

lemma dumps_reads: "dumpable v \<Longrightarrow> reads ft v"
proof (induction v rule: json_dumps.induct)
  case 1
  show ?case
    unfolding reads_def json_dumps.simps using scan_word(1) by blast
next
  case (2 b)
  show ?case
    unfolding reads_def json_dumps.simps using scan_word(2,3) by (cases b) (simp_all only: if_True if_False, blast+)
next
  case (3 i)
  then show ?case by (auto simp: reads_def intro!: exI [of _ "Suc 0"] scan_int)
next
  case (5 s)
  show ?case
    unfolding reads_def json_dumps.simps json_str_def
    by (intro allI impI exI [of _ "Suc 0"]) (simp add: scan_quote scan_json_str)
next
  case (6 xs)
  show ?case
  proof (cases "xs = []")
    case False
    then obtain x xs' where xs: "xs = x # xs'" by (cases xs) auto
    have "skip_ws (py_intersperse '', '' (map json_dumps xs) @ q) = py_intersperse '', '' (map json_dumps xs) @ q \<and> hd (py_intersperse '', '' (map json_dumps xs) @ q) \<noteq> CHR '']''
        \<and> py_intersperse '', '' (map json_dumps xs) @ q \<noteq> []" for q
      using 6(2) dumps_start [of x] skip_dumps [of x] by (cases xs') (auto simp: xs)
    then have start: "\<exists>c cs. py_intersperse '', '' (map json_dumps xs) @ q = c # cs \<and> c \<noteq> CHR '']'' \<and> skip_ws (c # cs) = c # cs" for q
      by (metis list.exhaust_sel)
    have "list_all dumpable xs" "list_all (reads ft) xs"
      using 6 by (auto simp: list_all_iff)
    note items = scan_items_dumps [OF False this]
    show ?thesis
      unfolding reads_def
    proof (intro allI impI)
      fix r
      obtain n where "scan_items ft n (py_intersperse '', '' (map json_dumps xs) @ CHR '']'' # r) = Parsed xs r"
        using items by blast
      then show "\<exists>n. scan_value ft n (json_dumps (PList xs) @ r) = Parsed (PList xs) r"
        using start [of "CHR '']'' # r"] by (intro exI [of _ "Suc n"]) (auto simp: scan_unfold)
    qed
  qed (auto simp: reads_def scan_unfold intro!: exI [of _ "Suc 0"])
next
  case (7 kvs)
  let ?t = "py_intersperse '', '' (map (\<lambda>kv. json_str (fst kv) @ '': '' @ json_dumps (snd kv)) kvs)"
  show ?case
  proof (cases "kvs = []")
    case False
    then have start: "\<exists>cs. ?t @ q = CHR 0x22 # cs" for q
      by (cases kvs; cases "tl kvs") (auto simp: json_str_def)
    have ok: "list_all (\<lambda>kv. dumpable (snd kv)) kvs" "list_all (\<lambda>kv. reads ft (snd kv)) kvs" "distinct (keys kvs)"
      using 7 by (auto simp: list_all_iff wf_dict_def)
    show ?thesis
      unfolding reads_def
    proof (intro allI impI)
      fix r
      obtain n where "scan_members ft n [] (?t @ CHR ''}'' # r) = Parsed kvs r"
        using scan_members_dumps [OF False ok, of "[]"] by auto
      then show "\<exists>n. scan_value ft n (json_dumps (PDict kvs) @ r) = Parsed (PDict kvs) r"
        using start [of "CHR ''}'' # r"] by (intro exI [of _ "Suc n"]) (auto simp: scan_unfold)
    qed
  qed (auto simp: reads_def scan_unfold intro!: exI [of _ "Suc 0"])
qed auto

text \<open>What \<open>json.dumps\<close> wrote, \<open>json.loads\<close> reads.\<close>

lemma loads_dumps: "dumpable v \<Longrightarrow> json_loads ft (json_dumps v) = Some (Inr v)"
proof -
  assume v: "dumpable v"
  let ?s = "json_dumps v" and ?n = "2 * length (json_dumps v) + 1"
  have s: "skip_ws ?s = ?s" using skip_dumps [OF v, of "[]"] by simp
  have "number_ends []" by simp
  then obtain n where n: "\<And>m. n \<le> m \<Longrightarrow> scan_value ft m (?s @ []) = Parsed v []"
    using readsE [OF dumps_reads [OF v]] by metis
  have "scan_value ft (max n ?n) ?s = scan_value ft ?n ?s"
    by (intro scan_more scan_enough) simp_all
  then have "scan_value ft ?n ?s = Parsed v []" using n [of "max n ?n"] by simp
  then show ?thesis by (simp add: json_loads_def s)
qed

lemma dumpable_floats: "dumpable v \<Longrightarrow> floats_ok v"
  by (induction v rule: floats_ok.induct) (auto simp: list_all_iff)

text \<open>
  The line of a JSON-lines file: what \<open>json.dumps\<close> writes for a dictionary.  It holds no newline and reads
  back as that dictionary.
\<close>

definition json_line :: "json_record \<Rightarrow> string \<Rightarrow> bool" where
  "json_line d l \<longleftrightarrow> dumpable (PDict d) \<and> l = json_dumps (PDict d)"

lemma json_line_loads: "json_line d l \<Longrightarrow> json_loads ft l = Some (Inr (PDict d))"
  unfolding json_line_def using loads_dumps by blast

lemma json_line_one_line: "json_line d l \<Longrightarrow> CHR 0x0A \<notin> set l"
  unfolding json_line_def using json_dumps_one_line dumpable_floats by blast

lemma dumpable_merge:
  assumes "dumpable (PDict d)" "list_all (\<lambda>(k, v). dumpable v) e"
  shows "dumpable (PDict (merge_dict d e))"
  using assms
proof (induction e arbitrary: d)
  case (Cons a e)
  obtain k v where a: "a = (k, v)" by force
  have "list_all (\<lambda>kv. dumpable (snd kv)) (AList.update k v d)"
    using Cons.prems by (simp add: a list_all_update)
  then have "dumpable (PDict (AList.update k v d))"
    using Cons.prems(1) by (simp add: wf_dict_update)
  then show ?case
    using Cons.IH [of "AList.update k v d"] Cons.prems(2) by (simp add: merge_dict_def a)
qed (simp add: merge_dict_def)

end
