(* ===== verification/GwConfig.thy ===== *)
theory GwConfig
  imports PyJsonRound
begin

text \<open>
  The gateway's configuration (\<open>obs_gateway/config.py\<close>): one record field per setting, the
  defaults the class declares, and the derived request-body limit.  Every other component takes
  this record as an argument, where the code reads the module-level \<open>settings\<close> object.
\<close>

datatype authz_mode_t = Mode_none | Mode_static | Mode_external

record settings =
  service_name :: string
  environment :: string
  otel_endpoint :: string
  jwt_secret :: "string option"
  jwt_jwks_url :: "string option"
  jwt_algorithms :: "string list"
  jwt_audience :: "string option"
  jwt_issuer :: "string option"
  jwt_company_claim :: string
  jwt_user_claim :: string
  jwt_roles_claim :: string
  authz_mode :: authz_mode_t
  authz_role_permissions :: "(string, string list) dict"
  authz_grafana_roles :: "(string, string) dict"
  authz_url :: "string option"
  authz_timeout_seconds :: rat
  authz_route_actions :: "(string \<times> string) list"
  authz_token_cookie :: string
  internal_api_key :: "string option"
  health_targets :: "(string, string) dict"
  health_path :: string
  health_timeout_seconds :: rat
  stack_targets :: "(string, string) dict"
  stack_check_interval_seconds :: rat
  fallback_trigger_components :: "string list"
  fallback_log_dir :: string
  fallback_log_max_bytes :: int
  fallback_log_backup_count :: int
  max_event_bytes :: int
  max_batch_events :: int
  rate_limit_per_min :: int
  dedupe_window_seconds :: rat
  trusted_proxy_hops :: int
  cors_allow_origins :: "string list"
  log_level :: string

definition default_settings :: settings where
  "default_settings = \<lparr>
     service_name = ''obs-gateway'',
     environment = ''development'',
     otel_endpoint = ''http://otel-collector:4318'',
     jwt_secret = None,
     jwt_jwks_url = None,
     jwt_algorithms = [''HS256'', ''RS256''],
     jwt_audience = None,
     jwt_issuer = None,
     jwt_company_claim = ''org_id'',
     jwt_user_claim = ''sub'',
     jwt_roles_claim = ''roles'',
     authz_mode = Mode_none,
     authz_role_permissions =
       [(''obs-admin'', [''*'']),
        (''obs-editor'', [''ui:access'', ''logs:read'', ''traces:read'', ''metrics:read'', ''status:read'']),
        (''obs-viewer'', [''ui:access'', ''logs:read'', ''traces:read'', ''metrics:read''])],
     authz_grafana_roles =
       [(''obs-admin'', ''Admin''), (''obs-editor'', ''Editor''), (''obs-viewer'', ''Viewer'')],
     authz_url = None,
     authz_timeout_seconds = 2,
     authz_route_actions =
       [(''/loki/'', ''logs:read''), (''/tempo/'', ''traces:read''),
        (''/prometheus/'', ''metrics:read''), (''/'', ''ui:access'')],
     authz_token_cookie = ''obs_token'',
     internal_api_key = None,
     health_targets = [],
     health_path = ''/healthz'',
     health_timeout_seconds = 3,
     stack_targets =
       [(''otel-collector'', ''http://otel-collector:13133/''),
        (''loki'', ''http://loki:3100/ready''),
        (''tempo'', ''http://tempo:3200/ready''),
        (''prometheus'', ''http://prometheus:9090/-/ready''),
        (''grafana'', ''http://grafana:3000/api/health'')],
     stack_check_interval_seconds = 15,
     fallback_trigger_components = [''otel-collector'', ''loki'', ''grafana''],
     fallback_log_dir = [],
     fallback_log_max_bytes = 10485760,
     fallback_log_backup_count = 5,
     max_event_bytes = 16384,
     max_batch_events = 100,
     rate_limit_per_min = 600,
     dedupe_window_seconds = 10,
     trusted_proxy_hops = 0,
     cors_allow_origins = [],
     log_level = ''INFO'' \<rparr>"

definition max_request_bytes :: "settings \<Rightarrow> int" where
  "max_request_bytes cfg = max_batch_events cfg * max_event_bytes cfg"

text \<open>Python truthiness of an optional string: neither missing nor empty.\<close>

definition opt_truthy :: "string option \<Rightarrow> bool" where
  "opt_truthy x = (case x of None \<Rightarrow> False | Some s \<Rightarrow> s \<noteq> [])"

lemma opt_truthy_simps [simp]:
  "opt_truthy None = False" "opt_truthy (Some s) = (s \<noteq> [])"
  by (simp_all add: opt_truthy_def)

lemma opt_truthy_iff: "opt_truthy x \<longleftrightarrow> (\<exists>s. x = Some s \<and> s \<noteq> [])"
  by (cases x) simp_all

end
