(* ===== verification/GwThrottle.thy ===== *)
theory GwThrottle
  imports GwConfig
begin

text \<open>
  The two in-memory throttles of \<open>obs_gateway/ingest.py\<close>: the sliding-window rate limit per
  client IP (\<open>_rate_limited\<close> over \<open>_hits\<close>) and the short-window deduplication per signature
  (\<open>_is_duplicate\<close> over \<open>_recent\<close>).  The state each keeps is the dictionary the module holds; the
  clock reading \<open>time.monotonic()\<close> is an argument.

  The sliding-window contract is the locale \<open>sliding_limiter\<close>: a check that decides by the calls
  accepted in the closed window before it.  What the rate limit promises is proved there once and
  holds for the code's model through the interpretation \<open>rl\<close>.
\<close>

definition RATE_WINDOW_SECONDS :: time where
  "RATE_WINDOW_SECONDS = 60"

definition MAX_TRACKED_KEYS :: nat where
  "MAX_TRACKED_KEYS = 4096"

type_synonym hits = "(string, time list) dict"
type_synonym recent = "(string, time) dict"

section \<open>The rate limit\<close>

text \<open>A deque is a list with its oldest entry first.\<close>

definition stale_window :: "time \<Rightarrow> time list \<Rightarrow> bool" where
  "stale_window now w = (w = [] \<or> now - last w > RATE_WINDOW_SECONDS)"

definition prune_hits :: "time \<Rightarrow> hits \<Rightarrow> hits" where
  "prune_hits now h =
     (if length h > MAX_TRACKED_KEYS
      then del_keys (map fst (filter (\<lambda>(ip, w). stale_window now w) h)) h else h)"

fun drop_expired :: "time \<Rightarrow> time list \<Rightarrow> time list" where
  "drop_expired now [] = []"
| "drop_expired now (t # ts) = (if now - t > RATE_WINDOW_SECONDS then drop_expired now ts else t # ts)"

definition rate_limited :: "int \<Rightarrow> string \<Rightarrow> time \<Rightarrow> hits \<Rightarrow> bool \<times> hits" where
  "rate_limited limit client_ip now h =
     (let h1 = prune_hits now h;
          window = drop_expired now (case map_of h1 client_ip of None \<Rightarrow> [] | Some w \<Rightarrow> w)
      in if int (length window) \<ge> limit
         then (True, AList.update client_ip window h1)
         else (False, AList.update client_ip (window @ [now]) h1))"

section \<open>Deduplication\<close>

definition prune_recent :: "time \<Rightarrow> time \<Rightarrow> recent \<Rightarrow> recent" where
  "prune_recent window now r =
     (if length r > MAX_TRACKED_KEYS
      then (let cutoff = now - window;
                r' = del_keys (map fst (filter (\<lambda>(k, t). t < cutoff) r)) r
            in if length r' > MAX_TRACKED_KEYS then [] else r')
      else r)"

definition is_duplicate :: "time \<Rightarrow> string \<Rightarrow> time \<Rightarrow> recent \<Rightarrow> bool \<times> recent" where
  "is_duplicate window signature now r =
     (let r1 = prune_recent window now r;
          last_seen = map_of r1 signature
      in (case last_seen of None \<Rightarrow> False | Some t \<Rightarrow> now - t < window,
          AList.update signature now r1))"

section \<open>The sliding-window contract\<close>

text \<open>The calls of a log that a request of key \<open>k\<close> at time \<open>now\<close> still sees.\<close>

definition in_window :: "time \<Rightarrow> time \<Rightarrow> 'k \<Rightarrow> (time \<times> 'k) list \<Rightarrow> (time \<times> 'k) list" where
  "in_window w now k lg = filter (\<lambda>(t, k'). k' = k \<and> now - t \<le> w) lg"

text \<open>
  The abstract limiter: its state is the whole log of accepted calls, and a call is limited when
  the log holds \<open>limit\<close> calls of its key in the closed window before it.
\<close>

definition spec_check :: "time \<Rightarrow> int \<Rightarrow> 'k \<Rightarrow> time \<Rightarrow> (time \<times> 'k) list \<Rightarrow> bool \<times> (time \<times> 'k) list" where
  "spec_check w limit k now lg =
     (if limit \<le> int (length (in_window w now k lg)) then (True, lg) else (False, lg @ [(now, k)]))"

definition calls_between :: "time \<Rightarrow> time \<Rightarrow> 'k \<Rightarrow> (time \<times> 'k) list \<Rightarrow> (time \<times> 'k) list" where
  "calls_between a b k lg = filter (\<lambda>(t, k'). k' = k \<and> a \<le> t \<and> t \<le> b) lg"

lemma calls_between_le_in_window:
  "now \<le> a + w \<Longrightarrow> length (calls_between a (a + w) k lg) \<le> length (in_window w now k lg)"
  unfolding calls_between_def in_window_def by (induction lg) auto

definition bounded_log :: "time \<Rightarrow> int \<Rightarrow> (time \<times> 'k) list \<Rightarrow> bool" where
  "bounded_log w limit lg = (\<forall>a k. length (calls_between a (a + w) k lg) \<le> nat limit)"

lemma spec_check_bounded:
  assumes "bounded_log w limit lg"
  shows "bounded_log w limit (snd (spec_check w limit k now lg))"
  unfolding bounded_log_def
proof (intro allI)
  fix a k'
  have old: "length (calls_between a (a + w) k' lg) \<le> nat limit"
    using assms by (simp add: bounded_log_def)
  show "length (calls_between a (a + w) k' (snd (spec_check w limit k now lg))) \<le> nat limit"
  proof (cases "limit \<le> int (length (in_window w now k lg)) \<or> k' \<noteq> k \<or> \<not> (a \<le> now \<and> now \<le> a + w)")
    case True
    then show ?thesis using old by (auto simp: spec_check_def calls_between_def)
  next
    case False
    then have "length (calls_between a (a + w) k lg) < nat limit"
      using calls_between_le_in_window [of now a w k lg] by linarith
    with False show ?thesis by (auto simp: spec_check_def calls_between_def)
  qed
qed

lemma spec_run_bounded:
  "bounded_log w limit lg \<Longrightarrow> bounded_log w limit (snd (run_checks (spec_check w limit) rs lg))"
proof (induction rs arbitrary: lg)
  case (Cons r rs)
  obtain t k where r: "r = (t, k)" by force
  have "bounded_log w limit (snd (spec_check w limit k t lg))"
    using Cons.prems by (rule spec_check_bounded)
  then show ?case using Cons.IH by (auto simp: r case_prod_beta Let_def)
qed simp

lemma spec_run_log:
  "snd (run_checks (spec_check w limit) rs lg)
     = lg @ accepted rs (fst (run_checks (spec_check w limit) rs lg))"
proof (induction rs arbitrary: lg)
  case (Cons r rs)
  obtain t k where "r = (t, k)" by force
  then show ?case
    using Cons.IH by (auto simp: case_prod_beta Let_def spec_check_def)
qed simp

text \<open>
  An implementation keeps a state that shows, for every key and every later time, the accepted
  calls still in the window (\<open>view\<close>); \<open>inv t s\<close> says the state is well formed and was last
  touched at \<open>t\<close> or before.
\<close>

locale sliding_limiter =
  fixes check :: "'k \<Rightarrow> time \<Rightarrow> 's \<Rightarrow> bool \<times> 's"
    and view :: "time \<Rightarrow> 's \<Rightarrow> 'k \<Rightarrow> time list"
    and inv :: "time \<Rightarrow> 's \<Rightarrow> bool"
    and window :: time
    and limit :: int
  assumes decide: "inv t s \<Longrightarrow> t \<le> now \<Longrightarrow>
      fst (check k now s) \<longleftrightarrow> limit \<le> int (length (view now s k))"
    and view_check: "inv t s \<Longrightarrow> t \<le> now \<Longrightarrow> now \<le> u \<Longrightarrow>
      view u (snd (check k now s)) k' = view u s k' @
        (if k' = k \<and> \<not> fst (check k now s) \<and> u - now \<le> window then [now] else [])"
    and inv_check: "inv t s \<Longrightarrow> t \<le> now \<Longrightarrow> inv now (snd (check k now s))"
begin

definition shows_log :: "time \<Rightarrow> 's \<Rightarrow> (time \<times> 'k) list \<Rightarrow> bool" where
  "shows_log t s lg \<longleftrightarrow> inv t s \<and> (\<forall>u \<ge> t. \<forall>k. view u s k = map fst (in_window window u k lg))"

lemma check_refines:
  assumes "shows_log t s lg" "t \<le> now"
  shows "fst (check k now s) = fst (spec_check window limit k now lg)"
    and "shows_log now (snd (check k now s)) (snd (spec_check window limit k now lg))"
proof -
  have inv: "inv t s" and view: "\<And>u k. t \<le> u \<Longrightarrow> view u s k = map fst (in_window window u k lg)"
    using assms(1) by (auto simp: shows_log_def)
  show dec: "fst (check k now s) = fst (spec_check window limit k now lg)"
    using decide [OF inv assms(2), of k] view [OF assms(2), of k] by (simp add: spec_check_def)
  have "view u (snd (check k now s)) k'
      = map fst (in_window window u k' (snd (spec_check window limit k now lg)))"
    if "now \<le> u" for u k'
    using view_check [OF inv assms(2) that, of k k'] view [of u k'] that assms(2) dec
    by (auto simp: spec_check_def in_window_def split: if_splits)
  then show "shows_log now (snd (check k now s)) (snd (spec_check window limit k now lg))"
    using inv_check [OF inv assms(2)] by (simp add: shows_log_def)
qed

lemma run_refines:
  assumes "shows_log t s lg" "sorted (t # map fst rs)"
  shows "fst (run_checks check rs s) = fst (run_checks (spec_check window limit) rs lg)"
  using assms
proof (induction rs arbitrary: t s lg)
  case (Cons r rs)
  obtain now k where r: "r = (now, k)" by force
  have "t \<le> now" "sorted (now # map fst rs)" using Cons.prems(2) by (auto simp: r)
  then show ?case
    using check_refines [OF Cons.prems(1), of now k] Cons.IH [of now "snd (check k now s)"]
    by (auto simp: r case_prod_beta Let_def)
qed simp

lemma run_bounded:
  assumes "shows_log t s []" "sorted (t # map fst rs)"
  shows "length (calls_between a (a + window) k (accepted rs (fst (run_checks check rs s)))) \<le> nat limit"
proof -
  have "bounded_log window limit ([] :: (time \<times> 'k) list)"
    by (simp add: bounded_log_def calls_between_def)
  then have "bounded_log window limit (snd (run_checks (spec_check window limit) rs ([] :: (time \<times> 'k) list)))"
    by (rule spec_run_bounded)
  then show ?thesis
    using run_refines [OF assms] spec_run_log [of window limit rs "[]"] by (simp add: bounded_log_def)
qed

end

section \<open>The rate limit implements the contract\<close>

definition hits_view :: "time \<Rightarrow> hits \<Rightarrow> string \<Rightarrow> time list" where
  "hits_view u h ip =
     filter (\<lambda>x. u - x \<le> RATE_WINDOW_SECONDS) (case map_of h ip of None \<Rightarrow> [] | Some w \<Rightarrow> w)"

definition hits_inv :: "time \<Rightarrow> hits \<Rightarrow> bool" where
  "hits_inv t h \<longleftrightarrow> wf_dict h \<and>
     (\<forall>ip w. map_of h ip = Some w \<longrightarrow> sorted w \<and> (\<forall>x \<in> set w. x \<le> t))"

lemma drop_expired_filter:
  "sorted w \<Longrightarrow> drop_expired now w = filter (\<lambda>x. now - x \<le> RATE_WINDOW_SECONDS) w"
proof (induction w)
  case (Cons t ts)
  show ?case
  proof (cases "now - t > RATE_WINDOW_SECONDS")
    case True
    then show ?thesis using Cons by simp
  next
    case False
    then have "\<forall>x \<in> set (t # ts). now - x \<le> RATE_WINDOW_SECONDS"
      using Cons.prems by force
    then have "filter (\<lambda>x. now - x \<le> RATE_WINDOW_SECONDS) (t # ts) = t # ts"
      by (rule filter_True)
    then show ?thesis using False by simp
  qed
qed simp

lemma stale_window_filter:
  assumes "sorted w" "stale_window now w" "now \<le> u"
  shows "filter (\<lambda>x. u - x \<le> RATE_WINDOW_SECONDS) w = []"
proof (cases "w = []")
  case False
  then have "now - last w > RATE_WINDOW_SECONDS" using assms by (simp add: stale_window_def)
  moreover have "x \<le> last w" if "x \<in> set w" for x
    using assms(1) that by (induction w) auto
  ultimately show ?thesis using assms(3) by (force simp: filter_empty_conv)
qed simp

lemma wf_prune_hits: "wf_dict h \<Longrightarrow> wf_dict (prune_hits now h)"
  by (auto simp: prune_hits_def)

lemma map_of_prune_hits:
  "wf_dict h \<Longrightarrow> map_of (prune_hits now h) ip = Some w \<Longrightarrow> map_of h ip = Some w"
  by (auto simp: prune_hits_def del_keys_where map_of_filter_wf split: if_splits option.splits)

lemma hits_inv_prune: "hits_inv t h \<Longrightarrow> hits_inv t (prune_hits now h)"
  unfolding hits_inv_def using wf_prune_hits map_of_prune_hits by blast

lemma hits_view_prune:
  assumes "hits_inv t h" "now \<le> u"
  shows "hits_view u (prune_hits now h) ip = hits_view u h ip"
proof (cases "map_of h ip")
  case None
  then have "map_of (prune_hits now h) ip = None"
    using assms(1) map_of_prune_hits [of h now ip] by (cases "map_of (prune_hits now h) ip") (auto simp: hits_inv_def)
  with None show ?thesis by (simp add: hits_view_def)
next
  case (Some w)
  then have "map_of (prune_hits now h) ip =
      (if length h > MAX_TRACKED_KEYS \<and> stale_window now w then None else Some w)"
    using assms(1) by (auto simp: prune_hits_def del_keys_where map_of_filter_wf hits_inv_def)
  then show ?thesis
    using Some assms stale_window_filter [of w now u] by (auto simp: hits_view_def hits_inv_def)
qed

lemma rate_limited_eq:
  assumes "hits_inv t h" "t \<le> now"
  shows "rate_limited limit ip now h =
    (if limit \<le> int (length (hits_view now h ip))
     then (True, AList.update ip (hits_view now h ip) (prune_hits now h))
     else (False, AList.update ip (hits_view now h ip @ [now]) (prune_hits now h)))"
proof -
  let ?w = "case map_of (prune_hits now h) ip of None \<Rightarrow> [] | Some w \<Rightarrow> w"
  have "sorted ?w"
    using hits_inv_prune [OF assms(1), of now] by (auto simp: hits_inv_def split: option.splits)
  then have "drop_expired now ?w = hits_view now (prune_hits now h) ip"
    by (simp add: drop_expired_filter hits_view_def)
  then show ?thesis
    using hits_view_prune [OF assms(1) order_refl, of now ip] by (simp add: rate_limited_def Let_def)
qed

lemma hits_view_bounds:
  assumes "hits_inv t h" "t \<le> now"
  shows "sorted (hits_view now h ip)" "x \<in> set (hits_view now h ip) \<Longrightarrow> x \<le> now"
proof -
  have w: "sorted w \<and> (\<forall>x \<in> set w. x \<le> now)" if "map_of h ip = Some w" for w
    using assms that by (fastforce simp: hits_inv_def)
  then show "sorted (hits_view now h ip)"
    by (cases "map_of h ip") (auto simp: hits_view_def intro: sorted_wrt_filter)
  show "x \<in> set (hits_view now h ip) \<Longrightarrow> x \<le> now"
    using w by (cases "map_of h ip") (auto simp: hits_view_def)
qed

lemma filter_hits_view:
  "now \<le> u \<Longrightarrow> filter (\<lambda>x. u - x \<le> RATE_WINDOW_SECONDS) (hits_view now h ip) = hits_view u h ip"
  by (auto simp: hits_view_def intro!: filter_cong)

lemma rate_limited_decide:
  "hits_inv t h \<Longrightarrow> t \<le> now \<Longrightarrow>
     fst (rate_limited limit ip now h) \<longleftrightarrow> limit \<le> int (length (hits_view now h ip))"
  by (simp add: rate_limited_eq)

lemma rate_limited_view:
  assumes "hits_inv t h" "t \<le> now" "now \<le> u"
  shows "hits_view u (snd (rate_limited limit ip now h)) ip' = hits_view u h ip' @
    (if ip' = ip \<and> \<not> fst (rate_limited limit ip now h) \<and> u - now \<le> RATE_WINDOW_SECONDS then [now] else [])"
proof (cases "ip' = ip")
  case True
  then show ?thesis
    using filter_hits_view [OF assms(3), of h ip]
    by (auto simp: rate_limited_eq [OF assms(1,2)] hits_view_def [of u "AList.update _ _ _"] dict_simps)
next
  case False
  then show ?thesis
    using hits_view_prune [OF assms(1,3), of ip']
    by (auto simp: rate_limited_eq [OF assms(1,2)] hits_view_def dict_simps)
qed

lemma rate_limited_inv:
  assumes "hits_inv t h" "t \<le> now"
  shows "hits_inv now (snd (rate_limited limit ip now h))"
proof -
  have "wf_dict (prune_hits now h)"
    "\<And>ip w. map_of (prune_hits now h) ip = Some w \<Longrightarrow> sorted w \<and> (\<forall>x \<in> set w. x \<le> now)"
    using hits_inv_prune [OF assms(1), of now] assms(2) by (fastforce simp: hits_inv_def)+
  moreover have "sorted (hits_view now h ip)" "\<forall>x \<in> set (hits_view now h ip). x \<le> now"
    using hits_view_bounds [OF assms] by blast+
  ultimately show ?thesis
    by (auto simp: rate_limited_eq [OF assms] hits_inv_def dict_simps sorted_append
        split: if_splits)
qed

interpretation rl: sliding_limiter "rate_limited limit" hits_view hits_inv RATE_WINDOW_SECONDS limit
  for limit
  by unfold_locales (rule rate_limited_decide rate_limited_view rate_limited_inv; assumption)+

lemma hits_shows_empty: "rl.shows_log t [] []"
  by (simp add: rl.shows_log_def hits_inv_def hits_view_def in_window_def)

lemma sorted_has_start:
  assumes "sorted (map fst rs)"
  obtains t :: time where "sorted (t # map fst rs)"
proof (cases rs)
  case Nil
  then show ?thesis by (intro that [of 0]) simp
next
  case (Cons r rs')
  then show ?thesis using assms by (intro that [of "fst r"]) auto
qed

section \<open>Deduplication: bounds and history\<close>

lemma length_prune_recent: "length (prune_recent w now r) \<le> MAX_TRACKED_KEYS"
  by (auto simp: prune_recent_def Let_def)

text \<open>The last time a signature was seen in a history of calls, oldest first.\<close>

definition last_call :: "'k \<Rightarrow> (time \<times> 'k) list \<Rightarrow> time option" where
  "last_call k rs = map_of (map (\<lambda>(t, k). (k, t)) (rev rs)) k"

lemma last_call_snoc [simp]: "last_call k (rs @ [(t, k')]) = (if k' = k then Some t else last_call k rs)"
  by (simp add: last_call_def)

lemma last_call_Nil [simp]: "last_call k [] = None"
  by (simp add: last_call_def)

lemma last_call_mem: "last_call k rs = Some t \<Longrightarrow> (t, k) \<in> set rs"
  unfolding last_call_def by (auto dest: map_of_SomeD)

lemma prune_recent_sub:
  "wf_dict r \<Longrightarrow> map_of (prune_recent w now r) k = Some t \<Longrightarrow> map_of r k = Some t"
  by (auto simp: prune_recent_def Let_def del_keys_where map_of_filter_wf split: if_splits option.splits)

lemma wf_prune_recent: "wf_dict r \<Longrightarrow> wf_dict (prune_recent w now r)"
  by (auto simp: prune_recent_def Let_def)

lemma is_duplicate_map_of:
  "map_of (snd (is_duplicate w k now r)) k' = (if k' = k then Some now else map_of (prune_recent w now r) k')"
  by (simp add: is_duplicate_def Let_def dict_simps)

lemma wf_is_duplicate: "wf_dict r \<Longrightarrow> wf_dict (snd (is_duplicate w k now r))"
  by (auto simp: is_duplicate_def Let_def wf_prune_recent)

lemma length_is_duplicate: "length (snd (is_duplicate w k now r)) \<le> Suc MAX_TRACKED_KEYS"
  using length_prune_recent [of w now r]
  by (simp add: is_duplicate_def Let_def dict_simps)

text \<open>After a run the table shows the log of the accepted calls.\<close>

lemma run_shows_log:
  assumes "rl.shows_log t h lg" "sorted (t # map fst (rs @ [(now, ip)]))"
  shows "\<exists>u \<le> now. rl.shows_log u (snd (run_checks (rate_limited limit) rs h)) (lg @ accepted rs (fst (run_checks (rate_limited limit) rs h)))"
  using assms
proof (induction rs arbitrary: t h lg)
  case (Cons r rs)
  obtain t1 k where r: "r = (t1, k)" by force
  have t1: "t \<le> t1" "sorted (t1 # map fst (rs @ [(now, ip)]))" using Cons.prems(2) by (auto simp: r)
  let ?lg = "lg @ (if fst (rate_limited limit k t1 h) then [] else [(t1, k)])"
  have "?lg = snd (spec_check RATE_WINDOW_SECONDS limit k t1 lg)"
    using rl.check_refines(1) [OF Cons.prems(1) t1(1), of limit k] by (auto simp: spec_check_def)
  then have "rl.shows_log t1 (snd (rate_limited limit k t1 h)) ?lg"
    using rl.check_refines(2) [OF Cons.prems(1) t1(1), of limit k] by simp
  from Cons.IH [OF this t1(2)] show ?case by (simp add: r case_prod_beta Let_def split: if_splits)
qed auto

lemma set_accepted: "set (accepted rs vs) \<subseteq> set rs"
  by (auto simp: accepted_def dest: set_zip_leftD)

text \<open>\<open>remembers r rs\<close>: what the table holds is the last sighting of each key it has.\<close>

definition remembers :: "recent \<Rightarrow> (time \<times> string) list \<Rightarrow> bool" where
  "remembers r rs \<longleftrightarrow> wf_dict r \<and> (\<forall>k t. map_of r k = Some t \<longrightarrow> last_call k rs = Some t)"

lemma remembers_step:
  "remembers r rs \<Longrightarrow> remembers (snd (is_duplicate w k now r)) (rs @ [(now, k)])"
  using prune_recent_sub [of r w now]
  by (auto simp: remembers_def is_duplicate_map_of wf_is_duplicate split: if_splits)

lemma remembers_run:
  "remembers r rs \<Longrightarrow> remembers (snd (run_checks (is_duplicate w) rs' r)) (rs @ rs')"
proof (induction rs' arbitrary: r rs)
  case (Cons a rs')
  obtain now k where a: "a = (now, k)" by force
  show ?case
    using Cons.IH [OF remembers_step [OF Cons.prems, of w k now]]
    by (simp add: a case_prod_beta Let_def)
qed simp

text \<open>
  As long as no more than \<open>MAX_TRACKED_KEYS\<close> different signatures were seen nothing is pruned,
  and the table holds exactly the last sightings.
\<close>

lemma prune_recent_small: "length r \<le> MAX_TRACKED_KEYS \<Longrightarrow> prune_recent w now r = r"
  by (simp add: prune_recent_def)

lemma exact_run:
  assumes "wf_dict r" "\<forall>k. map_of r k = last_call k rs"
    and "card (snd ` set (rs @ rs')) \<le> MAX_TRACKED_KEYS"
  shows "\<forall>k. map_of (snd (run_checks (is_duplicate w) rs' r)) k = last_call k (rs @ rs')"
  using assms
proof (induction rs' arbitrary: r rs)
  case (Cons a rs')
  obtain now k where a: "a = (now, k)" by force
  have "dom (map_of r) \<subseteq> snd ` set (rs @ a # rs')"
    using Cons.prems(2) by (force dest: last_call_mem)
  then have "length r \<le> MAX_TRACKED_KEYS"
    using Cons.prems(1,3) length_wf_dict_card [of r]
    by (metis List.finite_set card_mono finite_imageI le_trans)
  then have "\<forall>k'. map_of (snd (is_duplicate w k now r)) k' = last_call k' (rs @ [a])"
    using Cons.prems(2) by (simp add: is_duplicate_map_of prune_recent_small a)
  then show ?case
    using Cons.IH [of "snd (is_duplicate w k now r)" "rs @ [a]"] Cons.prems wf_is_duplicate
    by (simp add: a case_prod_beta Let_def)
qed simp

lemma is_duplicate_verdict:
  "fst (is_duplicate w k now r) \<longleftrightarrow> (\<exists>t. map_of (prune_recent w now r) k = Some t \<and> now - t < w)"
  by (auto simp: is_duplicate_def Let_def split: option.splits)

text \<open>
  More generally the verdicts are exact as long as no more than \<open>MAX_TRACKED_KEYS\<close> different signatures were sighted
  within one window: a pruned entry has left the window, and the table is never cleared.
\<close>

definition seen_recently :: "time \<Rightarrow> (time \<times> string) list \<Rightarrow> string \<Rightarrow> time \<Rightarrow> bool" where
  "seen_recently w seen k now = (case last_call k seen of None \<Rightarrow> False | Some t \<Rightarrow> now - t < w)"

definition recent_keys :: "time \<Rightarrow> time \<Rightarrow> (time \<times> string) list \<Rightarrow> string set" where
  "recent_keys w now seen = snd ` set (filter (\<lambda>(t, k). now - t \<le> w) seen)"

definition within_capacity :: "time \<Rightarrow> (time \<times> string) list \<Rightarrow> bool" where
  "within_capacity w seen \<longleftrightarrow> sorted (map fst seen)
     \<and> list_all (\<lambda>n. card (recent_keys w (fst (seen ! n)) (take n seen)) \<le> MAX_TRACKED_KEYS) [0..<length seen]"

lemma within_capacity_prefix:
  assumes "within_capacity w (a @ b)"
  shows "within_capacity w a"
proof -
  have "card (recent_keys w (fst (a ! n)) (take n a)) \<le> MAX_TRACKED_KEYS" if "n < length a" for n
  proof -
    have "n \<in> set [0..<length (a @ b)]" using that by simp
    then have "card (recent_keys w (fst ((a @ b) ! n)) (take n (a @ b))) \<le> MAX_TRACKED_KEYS"
      using assms unfolding within_capacity_def list_all_iff by blast
    then show ?thesis using that by (simp add: nth_append)
  qed
  then show ?thesis using assms by (simp add: within_capacity_def list_all_iff sorted_append)
qed

lemma within_capacity_small:
  assumes "length seen \<le> MAX_TRACKED_KEYS" "sorted (map fst seen)"
  shows "within_capacity w seen"
proof -
  have "card (recent_keys w now (take n seen)) \<le> MAX_TRACKED_KEYS" for now n
  proof -
    have "card (recent_keys w now (take n seen)) \<le> card (set (filter (\<lambda>(t, k). now - t \<le> w) (take n seen)))"
      unfolding recent_keys_def by (rule card_image_le) (rule List.finite_set)
    also have "\<dots> \<le> length (filter (\<lambda>(t, k). now - t \<le> w) (take n seen))" by (rule card_length)
    also have "\<dots> \<le> length (take n seen)" by (rule length_filter_le)
    also have "\<dots> \<le> MAX_TRACKED_KEYS" using assms(1) by simp
    finally show ?thesis .
  qed
  then show ?thesis using assms(2) by (simp add: within_capacity_def list_all_iff)
qed

text \<open>\<open>shows_recent w r seen\<close>: the table has nothing but last sightings, and all of those still in the window.\<close>

definition shows_recent :: "time \<Rightarrow> recent \<Rightarrow> (time \<times> string) list \<Rightarrow> bool" where
  "shows_recent w r seen \<longleftrightarrow> remembers r seen
     \<and> (\<forall>k t. last_call k seen = Some t \<longrightarrow> fst (last seen) - t \<le> w \<longrightarrow> map_of r k = Some t)"

lemma shows_recent_Nil [simp]: "shows_recent w [] []"
  by (simp add: shows_recent_def remembers_def)

lemma prune_keeps_recent:
  assumes "shows_recent w r seen" "within_capacity w (seen @ [(now, k)])"
    and "last_call k' seen = Some t" "now - t \<le> w"
  shows "map_of (prune_recent w now r) k' = Some t"
proof -
  have wf: "wf_dict r" and only: "\<And>k t. map_of r k = Some t \<Longrightarrow> last_call k seen = Some t"
    using assms(1) unfolding shows_recent_def remembers_def by blast+
  have "seen \<noteq> []" using assms(3) by auto
  then have "last seen \<in> set seen" by simp
  then have "fst (last seen) \<le> now"
    using assms(2) by (auto simp: within_capacity_def sorted_append)
  then have there: "map_of r k' = Some t" using assms(1,3,4) by (auto simp: shows_recent_def)
  let ?r' = "del_keys (map fst (filter (\<lambda>(k, t). t < now - w) r)) r"
  have look: "map_of ?r' c = (case map_of r c of None \<Rightarrow> None | Some t \<Rightarrow> if t < now - w then None else Some t)" for c
    using wf by (auto simp: del_keys_where map_of_filter_wf split: option.split)
  have "dom (map_of ?r') \<subseteq> recent_keys w now seen"
  proof
    fix c assume "c \<in> dom (map_of ?r')"
    then obtain u where "map_of r c = Some u" "\<not> u < now - w" by (auto simp: look split: option.splits if_splits)
    then have "(u, c) \<in> set (filter (\<lambda>(t, k). now - t \<le> w) seen)" using last_call_mem [OF only] by simp
    then show "c \<in> recent_keys w now seen" unfolding recent_keys_def by force
  qed
  moreover have "card (recent_keys w now seen) \<le> MAX_TRACKED_KEYS"
    using assms(2) by (simp add: within_capacity_def)
  moreover have "finite (recent_keys w now seen)" by (simp add: recent_keys_def)
  moreover have "wf_dict ?r'" using wf by auto
  ultimately have "length ?r' \<le> MAX_TRACKED_KEYS"
    using length_wf_dict_card [of ?r'] by (metis card_mono le_trans)
  moreover have "map_of ?r' k' = Some t" using there assms(4) by (simp add: look)
  ultimately show ?thesis using there by (simp add: prune_recent_def Let_def)
qed

lemma is_duplicate_exact:
  assumes "shows_recent w r seen" "within_capacity w (seen @ [(now, k)])" "is_duplicate w k now r = (dup, r')"
  shows "dup \<longleftrightarrow> seen_recently w seen k now" "shows_recent w r' (seen @ [(now, k)])"
proof -
  have rem: "remembers r seen" using assms(1) by (simp add: shows_recent_def)
  have only: "last_call c seen = Some t" if "map_of (prune_recent w now r) c = Some t" for c t
    using prune_recent_sub [OF _ that] rem by (auto simp: remembers_def)
  have dup: "dup \<longleftrightarrow> (\<exists>t. map_of (prune_recent w now r) k = Some t \<and> now - t < w)"
    using is_duplicate_verdict [of w k now r] assms(3) by simp
  show "dup \<longleftrightarrow> seen_recently w seen k now"
  proof (cases "last_call k seen")
    case None
    then show ?thesis using only [of k] by (auto simp: dup seen_recently_def)
  next
    case (Some t)
    have "map_of (prune_recent w now r) k = Some t" if "now - t < w"
      using prune_keeps_recent [OF assms(1,2) Some] that by simp
    then show ?thesis using only [of k] Some by (auto simp: dup seen_recently_def)
  qed
  have "map_of r' c = (if c = k then Some now else map_of (prune_recent w now r) c)" for c
    using is_duplicate_map_of [of w k now r c] assms(3) by simp
  then show "shows_recent w r' (seen @ [(now, k)])"
    using remembers_step [OF rem, of w k now] assms(3) prune_keeps_recent [OF assms(1,2)]
    by (auto simp: shows_recent_def)
qed

definition flood :: "nat \<Rightarrow> (time \<times> string) list" where
  "flood n = map (\<lambda>i. (0, dec_digits i)) [0..<n]"

lemma flood_state:
  assumes "1 \<le> limit"
  shows "snd (run_checks (rate_limited limit) (flood n) []) = map (\<lambda>i. (dec_digits i, [0])) [0..<n]"
proof (induction n)
  case (Suc n)
  let ?h = "map (\<lambda>i. (dec_digits i, [0 :: rat])) [0..<n]"
  have "filter (\<lambda>(ip, w). stale_window 0 w) ?h = []"
    by (auto simp: filter_empty_conv stale_window_def RATE_WINDOW_SECONDS_def)
  then have prune: "prune_hits 0 ?h = ?h"
    by (simp add: prune_hits_def del_keys_def)
  have "dec_digits n \<notin> set (keys ?h)" by (auto simp: image_iff)
  then have "map_of ?h (dec_digits n) = None"
      "AList.update (dec_digits n) [0] ?h = ?h @ [(dec_digits n, [0])]"
    by (simp_all only: map_of_eq_None_iff set_map not_False_eq_True dict_update_new)
  then show ?case
    using Suc assms by (simp add: flood_def run_checks_append case_prod_beta Let_def rate_limited_def prune)
qed (simp add: flood_def)

section \<open>Properties\<close>

text \<open>C8: the rate limit holds.  Over any sequence of requests with non-decreasing clock readings,
  from the empty table, no client IP gets more than \<open>rate_limit_per_min\<close> requests accepted within
  any closed interval of 60 seconds, whatever other clients do and whenever the table is pruned.\<close>

theorem rate_limit_bound:
  assumes "sorted (map fst rs)"
  shows "length (calls_between a (a + RATE_WINDOW_SECONDS) ip
           (accepted rs (fst (run_checks (rate_limited limit) rs [])))) \<le> nat limit"
proof -
  obtain t where "sorted (t # map fst rs)" using sorted_has_start assms by blast
  then show ?thesis by (rule rl.run_bounded [OF hits_shows_empty])
qed

theorem rate_limit_bound_witness:
  "fst (run_checks (rate_limited 1) [(0, ''a''), (30, ''a''), (30, ''b''), (61, ''a'')] []) = [False, True, False, False]
   \<and> length (calls_between 0 (0 + RATE_WINDOW_SECONDS) ''a''
       (accepted [(0, ''a''), (30, ''a''), (30, ''b''), (61, ''a'')]
          (fst (run_checks (rate_limited 1) [(0, ''a''), (30, ''a''), (30, ''b''), (61, ''a'')] [])))) \<le> nat 1"
proof
  show "fst (run_checks (rate_limited 1) [(0, ''a''), (30, ''a''), (30, ''b''), (61, ''a'')] []) = [False, True, False, False]"
    by (simp add: rate_limited_def prune_hits_def MAX_TRACKED_KEYS_def RATE_WINDOW_SECONDS_def)
qed (rule rate_limit_bound, simp)

text \<open>The rate limiter implements its abstract specification.  The verdicts of \<open>_rate_limited\<close>,
  with its pruned per-client deques, are those of the limiter that keeps the whole log of accepted
  requests and rejects a request exactly when that log has \<open>rate_limit_per_min\<close> requests of the
  same client in the 60 seconds before it: pruning and expiry never change a verdict.\<close>

theorem rate_limit_refines_log:
  assumes "sorted (map fst rs)"
  shows "fst (run_checks (rate_limited limit) rs []) =
         fst (run_checks (spec_check RATE_WINDOW_SECONDS limit) rs [])"
proof -
  obtain t where "sorted (t # map fst rs)" using sorted_has_start assms by blast
  then show ?thesis by (rule rl.run_refines [OF hits_shows_empty])
qed

theorem rate_limit_refines_log_witness:
  "fst (run_checks (rate_limited 2) [(0, ''a''), (10, ''a''), (20, ''a''), (60, ''a''), (61, ''a'')] [])
     = [False, False, True, True, False]
   \<and> fst (run_checks (spec_check RATE_WINDOW_SECONDS 2)
        [(0, ''a''), (10, ''a''), (20, ''a''), (60, ''a''), (61, ''a'')] [])
     = [False, False, True, True, False]"
proof -
  let ?rs = "[(0, ''a''), (10, ''a''), (20, ''a''), (60, ''a''), (61, ''a'')]"
  have run: "fst (run_checks (rate_limited 2) ?rs []) = [False, False, True, True, False]"
    by (simp add: rate_limited_def prune_hits_def MAX_TRACKED_KEYS_def RATE_WINDOW_SECONDS_def)
  have "fst (run_checks (rate_limited 2) ?rs []) = fst (run_checks (spec_check RATE_WINDOW_SECONDS 2) ?rs [])"
    by (rule rate_limit_refines_log) simp
  with run show ?thesis by (simp only: simp_thms)
qed

text \<open>The deduplication table is bounded.  After every call it has at most
  \<open>MAX_TRACKED_KEYS + 1\<close> entries, whatever it held before.\<close>

theorem dedupe_table_bounded:
  "length (snd (is_duplicate w k now r)) \<le> Suc MAX_TRACKED_KEYS"
  using length_prune_recent [of w now r]
  by (simp add: is_duplicate_def Let_def dict_simps)

text \<open>Deduplication never drops a first sighting.  Whatever the table has been pruned of, a call is
  declared a duplicate only if the same signature was seen before in the history, and its last
  sighting is less than the window ago.\<close>

theorem dedupe_sound:
  assumes "fst (is_duplicate w k now (snd (run_checks (is_duplicate w) rs [])))"
  shows "\<exists>t. last_call k rs = Some t \<and> (t, k) \<in> set rs \<and> now - t < w"
proof -
  let ?r = "snd (run_checks (is_duplicate w) rs [])"
  have "remembers ?r rs"
    using remembers_run [of "[]" "[]" w rs] by (simp add: remembers_def)
  moreover obtain t where "map_of (prune_recent w now ?r) k = Some t" "now - t < w"
    using assms by (auto simp: is_duplicate_verdict)
  ultimately have "last_call k rs = Some t" "now - t < w"
    using prune_recent_sub [of ?r w now k t] by (auto simp: remembers_def)
  then show ?thesis using last_call_mem [of k rs t] by auto
qed

theorem dedupe_sound_witness:
  "\<exists>t. last_call ''s'' [(0, ''s''), (1, ''u'')] = Some t \<and> (t, ''s'') \<in> set [(0, ''s''), (1, ''u'')] \<and> 5 - t < (10 :: rat)"
proof -
  have "fst (is_duplicate 10 ''s'' 5 (snd (run_checks (is_duplicate 10) [(0, ''s''), (1, ''u'')] [])))"
    by (simp add: is_duplicate_def prune_recent_def MAX_TRACKED_KEYS_def)
  then show ?thesis by (rule dedupe_sound)
qed

text \<open>Deduplication is exact while at most \<open>MAX_TRACKED_KEYS\<close> different signatures have been seen:
  a call is a duplicate if and only if its signature was last seen less than the window ago.\<close>

theorem dedupe_exact:
  assumes "card (snd ` set rs) \<le> MAX_TRACKED_KEYS"
  shows "fst (is_duplicate w k now (snd (run_checks (is_duplicate w) rs []))) \<longleftrightarrow>
           (\<exists>t. last_call k rs = Some t \<and> now - t < w)"
proof -
  let ?r = "snd (run_checks (is_duplicate w) rs [])"
  have lookup: "\<forall>k. map_of ?r k = last_call k rs"
    using exact_run [of "[]" "[]" rs w] assms by simp
  have "wf_dict ?r"
    using remembers_run [of "[]" "[]" w rs] by (simp add: remembers_def)
  moreover have "dom (map_of ?r) \<subseteq> snd ` set rs"
    using lookup by (force dest: last_call_mem)
  ultimately have "length ?r \<le> MAX_TRACKED_KEYS"
    using assms length_wf_dict_card by (metis List.finite_set card_mono finite_imageI le_trans)
  then show ?thesis by (simp add: is_duplicate_verdict prune_recent_small lookup)
qed

theorem dedupe_exact_witness:
  "\<not> fst (is_duplicate 10 ''s'' 10 (snd (run_checks (is_duplicate 10) [(0, ''s''), (1, ''u'')] [])))"
proof -
  have "card (snd ` set [(0 :: rat, ''s''), (1, ''u'')]) \<le> MAX_TRACKED_KEYS"
    by (simp add: MAX_TRACKED_KEYS_def)
  from dedupe_exact [OF this, of 10 "''s''" 10] show ?thesis by (simp add: last_call_def)
qed

text \<open>An error loop cannot flood the pipeline.  A client that repeats one event with gaps below the
  window has only the first sighting forwarded, however long the loop lasts: every sighting restarts
  the window.\<close>

theorem dedupe_loop_suppressed:
  assumes "successively (\<lambda>a b. b - a < w) (t # ts)"
  shows "fst (run_checks (is_duplicate w) (map (\<lambda>x. (x, k)) (t # ts)) []) = False # replicate (length ts) True"
proof -
  have "fst (run_checks (is_duplicate w) (map (\<lambda>x. (x, k)) ts) [(k, t)]) = replicate (length ts) True"
    using assms
  proof (induction ts arbitrary: t)
    case (Cons x xs)
    then show ?case
      by (simp add: is_duplicate_def prune_recent_def MAX_TRACKED_KEYS_def case_prod_beta Let_def)
  qed simp
  then show ?thesis
    by (simp add: is_duplicate_def prune_recent_def MAX_TRACKED_KEYS_def case_prod_beta Let_def)
qed

theorem dedupe_loop_suppressed_witness:
  "fst (run_checks (is_duplicate 10) (map (\<lambda>x. (x, ''s'')) [0, 9, 18, 27]) []) = [False, True, True, True]"
  using dedupe_loop_suppressed [of 10 0 "[9, 18, 27]" "''s''"] by (simp add: numeral_3_eq_3)

text \<open>C38: the rate-limit table holds exactly the clients of the last minute, and has no bound of its own.  After a
  request that follows any run of requests with non-decreasing clocks, every client with a request accepted in the 60
  seconds before is in the table, however many there are; and when the table was above \<open>MAX_TRACKED_KEYS\<close>, no other client is,
  but the one that called.\<close>

theorem rate_limit_table_unbounded:
  assumes "sorted (map fst (rs @ [(now, ip)]))"
  shows "let (verdicts, h) = run_checks (rate_limited limit) rs [];
             active = (\<lambda>(t, k). k) ` set (filter (\<lambda>(t, k). now - t \<le> 60) (accepted rs verdicts));
             h' = snd (rate_limited limit ip now h)
         in insert ip active \<subseteq> set (keys h') \<and> card active \<le> length h'
            \<and> (MAX_TRACKED_KEYS < length h \<longrightarrow> set (keys h') = insert ip active)"
proof -
  obtain vs h where run: "run_checks (rate_limited limit) rs [] = (vs, h)" by force
  define lg where "lg = accepted rs vs"
  define active where "active = (\<lambda>(t, k). k) ` set (filter (\<lambda>(t, k). now - t \<le> 60) lg)"
  obtain t where t: "sorted (t # map fst (rs @ [(now, ip)]))" using sorted_has_start [of "rs @ [(now, ip)]"] assms by auto
  obtain u where u: "rl.shows_log u h lg" "u \<le> now"
    using run_shows_log [OF hits_shows_empty t, of limit] run by (auto simp: lg_def)
  have inv: "hits_inv u h" and view: "hits_view now h k = map fst (in_window RATE_WINDOW_SECONDS now k lg)" for k
    using u by (auto simp: rl.shows_log_def)
  have active: "k \<in> active \<longleftrightarrow> hits_view now h k \<noteq> []" for k
    by (auto simp: active_def view in_window_def filter_empty_conv RATE_WINDOW_SECONDS_def)
  have keys: "set (keys (snd (rate_limited limit ip now h))) = insert ip (set (keys (prune_hits now h)))"
    by (simp add: rate_limited_eq [OF inv u(2)] set_keys_update del: set_map)
  have sub: "k \<in> set (keys (prune_hits now h))" if "k \<in> active" for k
  proof -
    have "hits_view now (prune_hits now h) k \<noteq> []"
      using that active hits_view_prune [OF inv order_refl, of now k] by simp
    then have "map_of (prune_hits now h) k \<noteq> None" by (cases "map_of (prune_hits now h) k") (simp_all add: hits_view_def)
    then show ?thesis unfolding in_keys_iff_map_of by blast
  qed
  have "k \<in> active" if there: "k \<in> set (keys (prune_hits now h))" and over: "MAX_TRACKED_KEYS < length h" for k
  proof -
    obtain w where w: "map_of (prune_hits now h) k = Some w" using there unfolding in_keys_iff_map_of by blast
    have wf: "wf_dict h" using inv by (simp add: hits_inv_def)
    have "map_of h k = Some w" using map_of_prune_hits [OF wf w] .
    moreover have "\<not> stale_window now w"
      using w over wf calculation by (simp add: prune_hits_def del_keys_where map_of_filter_wf split: if_splits)
    ultimately have "last w \<in> set (hits_view now h k)" by (simp add: hits_view_def stale_window_def)
    then have "hits_view now h k \<noteq> []" by (metis empty_iff empty_set)
    then show ?thesis unfolding active .
  qed
  then have exact: "set (keys (snd (rate_limited limit ip now h))) = insert ip active" if "MAX_TRACKED_KEYS < length h"
    using sub that unfolding keys by blast
  have "card active \<le> card (set (keys (snd (rate_limited limit ip now h))))"
    using sub unfolding keys by (intro card_mono) auto
  also have "\<dots> \<le> length (snd (rate_limited limit ip now h))" by (metis card_length length_map)
  finally have "card active \<le> length (snd (rate_limited limit ip now h))" .
  moreover have "insert ip active \<subseteq> set (keys (snd (rate_limited limit ip now h)))"
    using sub unfolding keys by blast
  ultimately show ?thesis
    using exact unfolding run active_def lg_def by (simp add: Let_def del: set_map)
qed

text \<open>Five thousand clients in one minute, and the first request a second after it.\<close>

theorem rate_limit_table_unbounded_witness:
  "length (snd (run_checks (rate_limited 600) (flood 5000) [])) = 5000
   \<and> set (keys (snd (rate_limited 600 ''late'' 61 (snd (run_checks (rate_limited 600) (flood 5000) []))))) = {''late''}"
proof
  show len: "length (snd (run_checks (rate_limited 600) (flood 5000) [])) = 5000" by (simp add: flood_state)
  have "sorted (map fst (flood 5000 @ [(61, ''late'')]))" by (simp add: flood_def sorted_append comp_def map_replicate_const)
  moreover have "fst x = 0" if "x \<in> set (accepted (flood 5000) vs)" for x vs
    using that set_accepted [of "flood 5000" vs] by (auto simp: flood_def)
  then have "filter (\<lambda>(t, k). 61 - t \<le> 60) (accepted (flood 5000) vs) = []" for vs
    by (force simp: filter_empty_conv)
  moreover have "MAX_TRACKED_KEYS < 5000" by (simp add: MAX_TRACKED_KEYS_def)
  ultimately show "set (keys (snd (rate_limited 600 ''late'' 61 (snd (run_checks (rate_limited 600) (flood 5000) []))))) = {''late''}"
    using rate_limit_table_unbounded [of "flood 5000" 61 "''late''" 600] len by (simp add: case_prod_beta Let_def del: set_map)
qed

end
