(* ===== verification/GwAuth.thy ===== *)
theory GwAuth
  imports GwConfig
begin

text \<open>
  Bearer-token authentication (\<open>obs_gateway/auth.py\<close>): who a request is on behalf of, the parsing
  of the roles claim, the internal service key, and the per-URL cache of JWKS clients.

  PyJWT is a parameter: \<open>signing_key\<close> is \<open>PyJWKClient(url).get_signing_key_from_jwt(token).key\<close> and
  \<open>decode\<close> is \<open>jwt.decode\<close>; a left result is the exception either raises.  Log lines are not
  modelled.
\<close>

record principal =
  company_id :: "string option"
  user_id :: "string option"
  authenticated :: bool
  roles :: "string list"

definition ANONYMOUS :: principal where
  "ANONYMOUS = \<lparr>company_id = None, user_id = None, authenticated = False, roles = []\<rparr>"

datatype jwt_key = SecretKey string | SigningKey string

type_synonym claims = "(string, pyval) dict"

record jwt_lib =
  signing_key :: "string \<Rightarrow> string \<Rightarrow> string + jwt_key"
  jwt_decode :: "string \<Rightarrow> jwt_key \<Rightarrow> string list \<Rightarrow> string option \<Rightarrow> string option \<Rightarrow> bool \<Rightarrow> string + claims"

text \<open>
  What the routes read of a request: the headers (by lower-case name), the cookies and the peer
  address of the socket.
\<close>

record http_request =
  req_headers :: "(string, string) dict"
  req_cookies :: "(string, string) dict"
  req_client :: "string option"

section \<open>The JWKS client cache\<close>

text \<open>
  \<open>functools.cache\<close> on \<open>_jwk_client\<close>: the clients built so far by URL.  A client object is known
  by its serial number among all the clients ever constructed.
\<close>

record jwk_cache =
  clients :: "(string, nat) dict"
  built :: nat

definition jwk_client :: "string \<Rightarrow> jwk_cache \<Rightarrow> nat \<times> jwk_cache" where
  "jwk_client url c =
     (case map_of (clients c) url of
        Some client \<Rightarrow> (client, c)
      | None \<Rightarrow> (built c, \<lparr>clients = AList.update url (built c) (clients c), built = Suc (built c)\<rparr>))"

fun jwk_clients :: "string list \<Rightarrow> jwk_cache \<Rightarrow> nat list \<times> jwk_cache" where
  "jwk_clients [] c = ([], c)"
| "jwk_clients (u # us) c =
     (let (k, c') = jwk_client u c; (ks, c'') = jwk_clients us c' in (k # ks, c''))"

section \<open>Principals\<close>

definition roles_of :: "pyval \<Rightarrow> string list" where
  "roles_of value =
     (case value of
        PStr s \<Rightarrow> py_split_ws (py_replace_char CHR '','' CHR '' '' s)
      | PList xs \<Rightarrow> map py_str xs
      | _ \<Rightarrow> [])"

text \<open>\<open>claims.get(name)\<close>; a missing claim is \<open>None\<close>.\<close>

definition claim :: "claims \<Rightarrow> string \<Rightarrow> pyval" where
  "claim cs name = (case map_of cs name of None \<Rightarrow> PNone | Some v \<Rightarrow> v)"

definition claim_str :: "pyval \<Rightarrow> string option" where
  "claim_str v = (if v = PNone then None else Some (py_str v))"

definition principal_of_claims :: "settings \<Rightarrow> claims \<Rightarrow> principal" where
  "principal_of_claims cfg cs =
     \<lparr>company_id = claim_str (claim cs (jwt_company_claim cfg)),
      user_id = claim_str (claim cs (jwt_user_claim cfg)),
      authenticated = True,
      roles = roles_of (claim cs (jwt_roles_claim cfg))\<rparr>"

definition is_bearer :: "string option \<Rightarrow> bool" where
  "is_bearer authorization =
     (case authorization of None \<Rightarrow> False
      | Some a \<Rightarrow> a \<noteq> [] \<and> py_startswith (py_lower a) ''bearer '')"

definition bearer_token :: "string \<Rightarrow> string" where
  "bearer_token a = py_strip (py_split1 CHR '' '' a ! 1)"

definition verify_token :: "settings \<Rightarrow> jwt_lib \<Rightarrow> string \<Rightarrow> string + claims" where
  "verify_token cfg lib token =
     (case (if opt_truthy (jwt_jwks_url cfg) then signing_key lib (the (jwt_jwks_url cfg)) token
            else Inr (SecretKey (the (jwt_secret cfg)))) of
        Inl exc \<Rightarrow> Inl exc
      | Inr key \<Rightarrow> jwt_decode lib token key (jwt_algorithms cfg) (jwt_audience cfg) (jwt_issuer cfg)
                     (jwt_audience cfg \<noteq> None))"

definition principal_from_bearer :: "settings \<Rightarrow> jwt_lib \<Rightarrow> string option \<Rightarrow> principal" where
  "principal_from_bearer cfg lib authorization =
     (if \<not> is_bearer authorization then ANONYMOUS
      else if \<not> (opt_truthy (jwt_secret cfg) \<or> opt_truthy (jwt_jwks_url cfg)) then ANONYMOUS
      else case verify_token cfg lib (bearer_token (the authorization)) of
             Inl exc \<Rightarrow> ANONYMOUS
           | Inr cs \<Rightarrow> principal_of_claims cfg cs)"

section \<open>The internal key\<close>

text \<open>\<open>hmac.compare_digest\<close> of the encoded strings is equality of the strings.\<close>

definition internal_key_ok :: "settings \<Rightarrow> string option \<Rightarrow> bool" where
  "internal_key_ok cfg provided =
     (if \<not> opt_truthy (internal_api_key cfg) then True
      else if \<not> opt_truthy provided then False
      else provided = internal_api_key cfg)"

section \<open>Lemmas\<close>

lemma ANONYMOUS_sel [simp]:
  "company_id ANONYMOUS = None" "user_id ANONYMOUS = None" "\<not> authenticated ANONYMOUS" "roles ANONYMOUS = []"
  by (simp_all add: ANONYMOUS_def)

lemma lower_char_space: "lower_char c = CHR '' '' \<Longrightarrow> c = CHR '' ''"
proof -
  assume "lower_char c = CHR '' ''"
  then have "code (lower_char c) = 32" by simp
  then have "code c = code (CHR '' '')" by (auto simp: code_lower_char split: if_splits)
  then show ?thesis by (simp only: of_char_eq_iff)
qed

lemma is_bearer_space:
  assumes "is_bearer (Some a)"
  shows "CHR '' '' \<in> set a"
proof -
  obtain t where "py_lower a = ''bearer '' @ t"
    using assms by (auto simp: is_bearer_def py_startswith_def prefix_def)
  then have "CHR '' '' \<in> set (py_lower a)" by simp
  then obtain c where "c \<in> set a" "lower_char c = CHR '' ''"
    by (auto simp: py_lower_def)
  with lower_char_space show ?thesis by metis
qed

lemma roles_of_simps [simp]:
  "roles_of (PStr s) = py_split_ws (py_replace_char CHR '','' CHR '' '' s)"
  "roles_of (PList xs) = map py_str xs"
  "roles_of PNone = []"
  by (simp_all add: roles_of_def)

lemma principal_of_claims_auth [simp]: "authenticated (principal_of_claims cfg cs)"
  by (simp add: principal_of_claims_def)

text \<open>The cache only grows, and hands out a different client for every URL.\<close>

definition cache_ok :: "jwk_cache \<Rightarrow> bool" where
  "cache_ok c \<longleftrightarrow> wf_dict (clients c) \<and> built c = length (clients c)
     \<and> (\<forall>u k. map_of (clients c) u = Some k \<longrightarrow> k < built c)
     \<and> (\<forall>u v k. map_of (clients c) u = Some k \<longrightarrow> map_of (clients c) v = Some k \<longrightarrow> u = v)"

definition empty_cache :: jwk_cache where
  "empty_cache = \<lparr>clients = [], built = 0\<rparr>"

lemma cache_ok_empty [simp]: "cache_ok empty_cache"
  by (simp add: cache_ok_def empty_cache_def)

lemma jwk_client_step:
  assumes "cache_ok c" "jwk_client u c = (k, c')"
  shows "cache_ok c'" "map_of (clients c') u = Some k" "map_of (clients c) \<subseteq>\<^sub>m map_of (clients c')"
    "dom (map_of (clients c')) = insert u (dom (map_of (clients c)))"
proof -
  have "cache_ok c' \<and> map_of (clients c') u = Some k \<and> map_of (clients c) \<subseteq>\<^sub>m map_of (clients c')
      \<and> dom (map_of (clients c')) = insert u (dom (map_of (clients c)))"
  proof (cases "map_of (clients c) u")
    case (Some l)
    then show ?thesis using assms by (auto simp: jwk_client_def)
  next
    case None
    then have c': "clients c' = AList.update u (built c) (clients c)" "built c' = Suc (built c)" "k = built c"
      using assms(2) by (auto simp: jwk_client_def)
    have "u \<notin> set (keys (clients c))" using None by (simp add: map_of_eq_None_iff)
    then have "length (clients c') = Suc (length (clients c))" by (simp only: c' length_dict_update if_False)
    moreover have "\<forall>v w k. map_of (clients c') v = Some k \<longrightarrow> map_of (clients c') w = Some k \<longrightarrow> v = w"
    proof (intro allI impI)
      fix v w k
      have bound: "map_of (clients c) x \<noteq> Some (built c)" for x
        using assms(1) unfolding cache_ok_def by blast
      have inj: "map_of (clients c) v = Some k \<Longrightarrow> map_of (clients c) w = Some k \<Longrightarrow> v = w"
        using assms(1) unfolding cache_ok_def by blast
      assume "map_of (clients c') v = Some k" "map_of (clients c') w = Some k"
      then show "v = w"
        using bound [of v] bound [of w] inj by (auto simp: c' dict_simps split: if_splits)
    qed
    moreover have "wf_dict (clients c')" using assms(1) by (auto simp: c' cache_ok_def)
    moreover have "\<forall>v k. map_of (clients c') v = Some k \<longrightarrow> k < built c'"
      using assms(1) by (auto simp: c' cache_ok_def dict_simps less_SucI)
    ultimately have "cache_ok c'"
      using assms(1) by (simp add: cache_ok_def c'(2))
    then show ?thesis
      using None by (auto simp: c' dict_simps map_le_def)
  qed
  then show "cache_ok c'" "map_of (clients c') u = Some k" "map_of (clients c) \<subseteq>\<^sub>m map_of (clients c')"
    "dom (map_of (clients c')) = insert u (dom (map_of (clients c)))" by simp_all
qed

lemma jwk_clients_run:
  assumes "cache_ok c" "jwk_clients us c = (ks, c')"
  shows "cache_ok c' \<and> map_of (clients c) \<subseteq>\<^sub>m map_of (clients c')
    \<and> dom (map_of (clients c')) = set us \<union> dom (map_of (clients c))
    \<and> map Some ks = map (map_of (clients c')) us"
  using assms
proof (induction us arbitrary: c ks)
  case (Cons u us)
  obtain k c1 where step: "jwk_client u c = (k, c1)" by force
  obtain ks1 where run: "jwk_clients us c1 = (ks1, c')" and ks: "ks = k # ks1"
    using Cons.prems(2) step by (auto simp: Let_def split: prod.splits)
  note s = jwk_client_step [OF Cons.prems(1) step]
  note IH = Cons.IH [OF s(1) run]
  have "map_of (clients c') u = Some k"
    using IH s(2) by (metis domI map_le_def)
  then show ?case
    using IH s(3,4) ks by (auto intro: map_le_trans)
qed simp

lemma replace_comma_id:
  "list_all (\<lambda>c. \<not> is_space c \<and> c \<noteq> CHR '','') w \<Longrightarrow> py_replace_char CHR '','' CHR '' '' w = w"
  by (induction w) (auto simp: py_replace_char_def)

lemma split_when_none_ws:
  "list_all (\<lambda>c. \<not> is_space c \<and> c \<noteq> CHR '','') w \<Longrightarrow> split_when is_space w = [w]"
  by (rule split_when_none) (auto simp: list_all_iff)

lemma py_split_ws_join:
  assumes "list_all (\<lambda>w. w \<noteq> [] \<and> list_all (\<lambda>c. \<not> is_space c \<and> c \<noteq> CHR '','') w) ws"
  shows "py_split_ws (py_replace_char CHR '','' CHR '' '' (py_intersperse '', '' ws)) = ws"
  using assms
proof (induction "'', ''" ws rule: py_intersperse.induct)
  case (2 w)
  then have ok: "w \<noteq> []" "list_all (\<lambda>c. \<not> is_space c \<and> c \<noteq> CHR '','') w" by simp_all
  show ?case
    using ok replace_comma_id [OF ok(2)] split_when_none_ws [OF ok(2)] by (simp add: py_split_ws_def)
next
  case (3 w w' ws)
  let ?r = "py_replace_char CHR '','' CHR '' ''"
  have ok: "w \<noteq> []" "list_all (\<lambda>c. \<not> is_space c \<and> c \<noteq> CHR '','') w"
    and rest: "list_all (\<lambda>w. w \<noteq> [] \<and> list_all (\<lambda>c. \<not> is_space c \<and> c \<noteq> CHR '','') w) (w' # ws)"
    using 3(2) by simp_all
  note w = replace_comma_id [OF ok(2)] and none = split_when_none_ws [OF ok(2)]
  have "?r (py_intersperse '', '' (w # w' # ws))
      = w @ CHR '' '' # [] @ CHR '' '' # ?r (py_intersperse '', '' (w' # ws))"
    using w by (simp add: py_replace_char_def)
  moreover have sp: "is_space CHR '' ''" by (simp add: is_space_def)
  moreover have "py_split_ws (w @ CHR '' '' # [] @ CHR '' '' # t) = w # py_split_ws t" for t
    by (simp only: py_split_ws_def split_when_append [of is_space, OF sp] none split_when.simps filter_append)
       (use ok in simp)
  moreover have "py_split_ws (?r (py_intersperse '', '' (w' # ws))) = w' # ws"
    using 3(1) rest by blast
  ultimately show ?case by simp
qed (simp add: py_split_ws_def py_replace_char_def)

text \<open>Inputs of the examples.\<close>

definition reject_all_jwt :: jwt_lib where
  "reject_all_jwt = \<lparr>signing_key = (\<lambda>url token. Inl ''PyJWKClientError''),
     jwt_decode = (\<lambda>token key algs aud iss verify_aud. Inl ''InvalidTokenError'')\<rparr>"

definition empty_request :: http_request where
  "empty_request = \<lparr>req_headers = [], req_cookies = [], req_client = None\<rparr>"

section \<open>Properties\<close>

text \<open>Authentication fails open to anonymity, never to an error.  A request is authenticated exactly
  when it carries a bearer header, a secret or a JWKS URL is configured, and the key lookup and the
  decoding of its token succeed; then the principal is read off the verified claims.  In every other
  case the principal is the anonymous one, with no tenant, user or role.\<close>

theorem principal_cases:
  "(authenticated (principal_from_bearer cfg lib h) \<longleftrightarrow>
      is_bearer h \<and> (opt_truthy (jwt_secret cfg) \<or> opt_truthy (jwt_jwks_url cfg))
      \<and> (\<exists>cs. verify_token cfg lib (bearer_token (the h)) = Inr cs))
   \<and> principal_from_bearer cfg lib h =
       (if authenticated (principal_from_bearer cfg lib h)
        then principal_of_claims cfg (projr (verify_token cfg lib (bearer_token (the h))))
        else ANONYMOUS)"
  by (auto simp: principal_from_bearer_def split: sum.splits)

text \<open>Reading the token out of an accepted header cannot fail.  The test for the \<open>Bearer\<close> scheme
  ignores case; whenever it passes, splitting at the first space gives exactly two parts, so the
  index \<open>[1]\<close> is in range.\<close>

theorem bearer_split_in_range:
  assumes "is_bearer (Some a)"
  shows "length (py_split1 CHR '' '' a) = 2"
  using is_bearer_space [OF assms] by (simp add: py_split1_def)

theorem bearer_split_in_range_witness:
  "length (py_split1 CHR '' '' ''BEARER abc.def'') = 2 \<and> bearer_token ''BEARER abc.def'' = ''abc.def''"
proof
  have "is_bearer (Some ''BEARER abc.def'')"
    by (simp add: is_bearer_def py_startswith_def py_lower_def lower_char_def char_eval)
  then show "length (py_split1 CHR '' '' ''BEARER abc.def'') = 2" by (rule bearer_split_in_range)
qed code_simp

text \<open>The list and the string form of the roles claim agree.  Role names without commas or white
  space give the same roles whether the claim is a JSON list of them or one string that joins them
  with commas and spaces.\<close>

theorem roles_forms_agree:
  assumes "list_all (\<lambda>w. w \<noteq> [] \<and> list_all (\<lambda>c. \<not> is_space c \<and> c \<noteq> CHR '','') w) ws"
  shows "roles_of (PStr (py_intersperse '', '' ws)) = ws \<and> roles_of (PList (map PStr ws)) = ws"
  using py_split_ws_join [OF assms] by (simp add: comp_def)

theorem roles_forms_agree_witness:
  "roles_of (PStr (py_intersperse '', '' [''obs-viewer'', ''obs-editor''])) = [''obs-viewer'', ''obs-editor'']
   \<and> roles_of (PList (map PStr [''obs-viewer'', ''obs-editor''])) = [''obs-viewer'', ''obs-editor'']"
  by (rule roles_forms_agree) (simp add: is_space_def)

text \<open>The internal-key guard is opt-in and exact: with a key configured only that very key passes
  (a missing or empty header never does), with none configured every caller passes.\<close>

theorem internal_key_ok_iff:
  "internal_key_ok cfg provided \<longleftrightarrow>
     \<not> opt_truthy (internal_api_key cfg) \<or> (opt_truthy provided \<and> provided = internal_api_key cfg)"
  by (auto simp: internal_key_ok_def)

text \<open>One JWKS client per URL.  Over any sequence of requests from an empty cache, two requests get
  the same client exactly when they use the same URL, and as many clients are constructed as there
  are different URLs.\<close>

theorem jwk_client_cached:
  "let (ks, c) = jwk_clients us empty_cache
   in built c = card (set us) \<and> length ks = length us
      \<and> list_all (\<lambda>(i, j). (ks ! i = ks ! j) = (us ! i = us ! j))
          (List.product [0..<length us] [0..<length us])"
proof -
  obtain ks c where run: "jwk_clients us empty_cache = (ks, c)" by force
  note inv = jwk_clients_run [OF cache_ok_empty run]
  have dom: "dom (map_of (clients c)) = set us" using inv by (simp add: empty_cache_def)
  have len: "length ks = length us" using inv by (metis length_map)
  have nth: "map_of (clients c) (us ! i) = Some (ks ! i)" if "i < length us" for i
    using inv that len by (metis nth_map)
  have "built c = card (set us)"
    using inv dom length_wf_dict_card [of "clients c"] by (simp add: cache_ok_def)
  moreover have "(ks ! i = ks ! j) = (us ! i = us ! j)" if "i < length us" "j < length us" for i j
    using inv nth [OF that(1)] nth [OF that(2)] unfolding cache_ok_def by (metis option.inject)
  ultimately show ?thesis using len by (auto simp: run list_all_iff)
qed

end
