(* ===== verification/GwEmit.thy ===== *)
theory GwEmit
  imports GwConfig
begin

text \<open>
  Forwarding of client events as OTLP log records (\<open>obs_gateway/emit.py\<close>): the severity table, the
  bounded registry of per-app logger providers, and the emission of one record.

  The OpenTelemetry SDK is outside the model: what can go wrong in it during one call is an argument
  (\<open>factory_error\<close>: building the processor raises; \<open>sink_error\<close>: \<open>Logger.emit\<close> raises), and a
  record that reaches \<open>Logger.emit\<close> is an output of the call, together with its provider.
\<close>

section \<open>Severities\<close>

datatype severity_number = TRACE | DEBUG | INFO | WARN | ERROR | FATAL

fun severity_value :: "severity_number \<Rightarrow> nat" where
  "severity_value TRACE = 1"
| "severity_value DEBUG = 5"
| "severity_value INFO = 9"
| "severity_value WARN = 13"
| "severity_value ERROR = 17"
| "severity_value FATAL = 21"

lemma severity_value_inject: "severity_value a = severity_value b \<longleftrightarrow> a = b"
  by (cases a; cases b) simp_all

instantiation severity_number :: linorder
begin

definition less_eq_severity_number :: "severity_number \<Rightarrow> severity_number \<Rightarrow> bool" where
  "less_eq_severity_number a b = (severity_value a \<le> severity_value b)"

definition less_severity_number :: "severity_number \<Rightarrow> severity_number \<Rightarrow> bool" where
  "less_severity_number a b = (severity_value a < severity_value b)"

instance
  by standard (auto simp: less_eq_severity_number_def less_severity_number_def severity_value_inject)

end

definition SEVERITY :: "(string, severity_number \<times> string) dict" where
  "SEVERITY =
     [(''trace'', (TRACE, ''TRACE'')),
      (''debug'', (DEBUG, ''DEBUG'')),
      (''info'', (INFO, ''INFO'')),
      (''warn'', (WARN, ''WARNING'')),
      (''warning'', (WARN, ''WARNING'')),
      (''error'', (ERROR, ''ERROR'')),
      (''fatal'', (FATAL, ''CRITICAL'')),
      (''critical'', (FATAL, ''CRITICAL''))]"

section \<open>The registry of loggers\<close>

definition FALLBACK_SERVICE :: string where
  "FALLBACK_SERVICE = ''frontend''"

definition MAX_APP_SERVICES :: nat where
  "MAX_APP_SERVICES = 32"

text \<open>A provider with its resource and the endpoint its processor exports to; a logger is its provider's.\<close>

record provider =
  resource_service :: string
  resource_environment :: string
  export_endpoint :: string

record emitter =
  providers :: "(string, provider) dict"
  loggers :: "(string, provider) dict"

definition new_emitter :: emitter where
  "new_emitter = \<lparr>providers = [], loggers = []\<rparr>"

definition otlp_processor :: "settings \<Rightarrow> string" where
  "otlp_processor cfg = otel_endpoint cfg @ ''/v1/logs''"

definition app_service :: "string option \<Rightarrow> string" where
  "app_service app = (if opt_truthy app then FALLBACK_SERVICE @ ''/'' @ the app else FALLBACK_SERVICE)"

definition logger_for ::
  "settings \<Rightarrow> string option \<Rightarrow> string option \<Rightarrow> emitter \<Rightarrow> (string + provider) \<times> emitter" where
  "logger_for cfg factory_error app em =
     (let service = (if map_of (loggers em) (app_service app) = None
                        \<and> length (loggers em) \<ge> MAX_APP_SERVICES
                     then FALLBACK_SERVICE else app_service app)
      in case map_of (loggers em) service of
           Some existing \<Rightarrow> (Inr existing, em)
         | None \<Rightarrow>
             (case factory_error of
                Some exc \<Rightarrow> (Inl exc, em)
              | None \<Rightarrow>
                  let new_logger = \<lparr>resource_service = service, resource_environment = environment cfg,
                                    export_endpoint = otlp_processor cfg\<rparr>
                  in (Inr new_logger,
                      \<lparr>providers = AList.update service new_logger (providers em),
                       loggers = AList.update service new_logger (loggers em)\<rparr>)))"

section \<open>Emission\<close>

record log_record =
  timestamp :: int
  observed_timestamp :: int
  trace_id :: "int option"
  span_id :: "int option"
  sampled :: bool
  severity_number :: severity_number
  severity_text :: string
  record_body :: string
  record_attributes :: "(string, string) dict"

record emit_env =
  time_ns :: int
  factory_error :: "string option"
  sink_error :: "string option"

datatype emit_out =
    Stdout "string option" string string "(string, string) dict"
  | Exported provider log_record
  | Otlp_emit_failed string

definition drop_none :: "(string, string option) dict \<Rightarrow> (string, string) dict" where
  "drop_none attrs = List.map_filter (\<lambda>(k, v). map_option (Pair k) v) attrs"

text \<open>\<open>int(x, 16) if x else None\<close>.\<close>

definition hex_id_value :: "string option \<Rightarrow> py_exn + int option" where
  "hex_id_value x =
     (if opt_truthy x
      then (case py_int16 (the x) of None \<Rightarrow> Inl ValueError | Some n \<Rightarrow> Inr (Some n))
      else Inr None)"

definition make_record ::
  "int \<Rightarrow> string \<Rightarrow> string \<Rightarrow> string option \<Rightarrow> string option \<Rightarrow> (string, string) dict \<Rightarrow> py_exn + log_record" where
  "make_record now body level tr sp attrs =
     (case map_of SEVERITY level of
        None \<Rightarrow> Inl KeyError
      | Some (number, txt) \<Rightarrow>
          (case hex_id_value tr of
             Inl e \<Rightarrow> Inl e
           | Inr tid \<Rightarrow>
               (case hex_id_value sp of
                  Inl e \<Rightarrow> Inl e
                | Inr sid \<Rightarrow>
                    Inr \<lparr>timestamp = now, observed_timestamp = now, trace_id = tid, span_id = sid,
                         sampled = opt_truthy tr, severity_number = number, severity_text = txt,
                         record_body = body, record_attributes = attrs\<rparr>)))"

definition emit ::
  "settings \<Rightarrow> emit_env \<Rightarrow> string option \<Rightarrow> string \<Rightarrow> string \<Rightarrow> string option \<Rightarrow> string option
   \<Rightarrow> (string, string option) dict \<Rightarrow> emitter \<Rightarrow> (py_exn + emit_out) \<times> emitter" where
  "emit cfg env app body level tr sp attributes em =
     (let clean = drop_none attributes
      in if otel_endpoint cfg = [] then (Inr (Stdout app level body clean), em)
         else case make_record (time_ns env) body level tr sp clean of
                Inl e \<Rightarrow> (Inl e, em)
              | Inr rec \<Rightarrow>
                  (case logger_for cfg (factory_error env) app em of
                     (Inl exc, em') \<Rightarrow> (Inr (Otlp_emit_failed exc), em')
                   | (Inr lgr, em') \<Rightarrow>
                       (case sink_error env of
                          Some exc \<Rightarrow> (Inr (Otlp_emit_failed exc), em')
                        | None \<Rightarrow> (Inr (Exported lgr rec), em'))))"

text \<open>\<open>shutdown\<close> flushes the providers in the order they were built and forgets them.\<close>

definition emitter_shutdown :: "emitter \<Rightarrow> provider list \<times> emitter" where
  "emitter_shutdown em = (map snd (providers em), \<lparr>providers = [], loggers = []\<rparr>)"

section \<open>The invariant of the registry\<close>

text \<open>
  Both dictionaries hold the same providers; each is registered under its own resource name, which
  is \<open>frontend\<close> or \<open>frontend/\<close> followed by an app; and at most \<open>MAX_APP_SERVICES\<close> of them are
  not the shared \<open>frontend\<close> one.
\<close>

definition app_keys :: "emitter \<Rightarrow> string list" where
  "app_keys em = filter (\<lambda>s. s \<noteq> FALLBACK_SERVICE) (keys (loggers em))"

definition emitter_ok :: "emitter \<Rightarrow> bool" where
  "emitter_ok em \<longleftrightarrow>
     wf_dict (loggers em) \<and> providers em = loggers em
     \<and> list_all (\<lambda>(s, p). resource_service p = s \<and> (\<exists>app. s = app_service app)) (loggers em)
     \<and> length (app_keys em) \<le> MAX_APP_SERVICES"

lemma emitter_ok_new [simp]: "emitter_ok new_emitter"
  by (simp add: emitter_ok_def new_emitter_def app_keys_def)

lemma emitter_ok_shutdown: "emitter_ok (snd (emitter_shutdown em))"
  by (simp add: emitter_shutdown_def emitter_ok_def app_keys_def)

lemma app_service_None [simp]: "app_service None = FALLBACK_SERVICE"
  by (simp add: app_service_def)

lemma length_fallback_key: "distinct ks \<Longrightarrow> length ks \<le> Suc (length (filter (\<lambda>s. s \<noteq> a) ks))"
proof (induction ks)
  case (Cons k ks)
  show ?case
  proof (cases "k = a")
    case True
    then have "filter (\<lambda>s. s \<noteq> a) ks = ks" using Cons.prems by (auto simp: filter_id_conv)
    with True show ?thesis by simp
  qed (use Cons in auto)
qed simp

lemma emitter_ok_length: "emitter_ok em \<Longrightarrow> length (loggers em) \<le> Suc MAX_APP_SERVICES"
  using length_fallback_key [of "keys (loggers em)" FALLBACK_SERVICE]
  by (simp add: emitter_ok_def wf_dict_def app_keys_def)

lemma logger_for_ok:
  assumes "emitter_ok em"
  shows "emitter_ok (snd (logger_for cfg fe app em))"
proof -
  let ?want = "app_service app"
  let ?full = "map_of (loggers em) ?want = None \<and> length (loggers em) \<ge> MAX_APP_SERVICES"
  let ?s = "if ?full then FALLBACK_SERVICE else ?want"
  show ?thesis
  proof (cases "map_of (loggers em) ?s = None \<and> fe = None")
    case False
    then show ?thesis using assms by (auto simp: logger_for_def Let_def split: option.splits)
  next
    case True
    define lgr where "lgr = \<lparr>resource_service = ?s, resource_environment = environment cfg,
                              export_endpoint = otlp_processor cfg\<rparr>"
    have new: "?s \<notin> set (keys (loggers em))" using True by (simp add: map_of_eq_None_iff)
    have st: "snd (logger_for cfg fe app em) =
        \<lparr>providers = loggers em @ [(?s, lgr)], loggers = loggers em @ [(?s, lgr)]\<rparr>"
      using True assms dict_update_new [OF new, of lgr]
      by (simp add: logger_for_def Let_def lgr_def emitter_ok_def)
    have keys: "app_keys (snd (logger_for cfg fe app em)) = app_keys em @ filter (\<lambda>s. s \<noteq> FALLBACK_SERVICE) [?s]"
      unfolding st app_keys_def by simp
    have "length (app_keys em) \<le> length (loggers em)"
      unfolding app_keys_def by (metis length_filter_le length_map)
    moreover have "?full \<or> length (loggers em) < MAX_APP_SERVICES" using True by (auto split: if_splits)
    ultimately have "length (app_keys (snd (logger_for cfg fe app em))) \<le> MAX_APP_SERVICES"
      using assms unfolding keys by (cases ?full) (simp_all add: emitter_ok_def)
    moreover have "\<exists>a. ?s = app_service a"
      using app_service_None by metis
    ultimately show ?thesis
      using assms new unfolding emitter_ok_def st by (auto simp: wf_dict_def lgr_def)
  qed
qed

lemma emit_state:
  "snd (emit cfg env app body level tr sp attrs em) = em
   \<or> snd (emit cfg env app body level tr sp attrs em) = snd (logger_for cfg (factory_error env) app em)"
  by (auto simp: emit_def Let_def split: sum.splits option.splits prod.splits)

lemma emit_ok: "emitter_ok em \<Longrightarrow> emitter_ok (snd (emit cfg env app body level tr sp attrs em))"
  using emit_state [of cfg env app body level tr sp attrs em] logger_for_ok by metis

section \<open>Runs and outcomes\<close>

record emission =
  em_env :: emit_env
  em_app :: "string option"
  em_body :: string
  em_level :: string
  em_trace :: "string option"
  em_span :: "string option"
  em_attrs :: "(string, string option) dict"

definition emit_one :: "settings \<Rightarrow> emission \<Rightarrow> emitter \<Rightarrow> emitter" where
  "emit_one cfg e em =
     snd (emit cfg (em_env e) (em_app e) (em_body e) (em_level e) (em_trace e) (em_span e) (em_attrs e) em)"

definition emit_run :: "settings \<Rightarrow> emission list \<Rightarrow> emitter \<Rightarrow> emitter" where
  "emit_run cfg es em = fold (emit_one cfg) es em"

lemma emit_run_ok: "emitter_ok em \<Longrightarrow> emitter_ok (emit_run cfg es em)"
  unfolding emit_run_def by (induction es arbitrary: em) (auto simp: emit_one_def emit_ok)

lemma logger_for_service:
  assumes "emitter_ok em" "logger_for cfg fe app em = (Inr lgr, em')"
  shows "resource_service lgr =
    (if app_service app \<notin> set (keys (loggers em)) \<and> length (loggers em) \<ge> MAX_APP_SERVICES
     then FALLBACK_SERVICE else app_service app)"
proof -
  have named: "resource_service p = s" if "map_of (loggers em) s = Some p" for s p
    using assms(1) map_of_SomeD [OF that] by (auto simp: emitter_ok_def list_all_iff)
  show ?thesis
    using assms(2) named
    by (auto simp: logger_for_def Let_def map_of_eq_None_iff split: option.splits if_splits)
qed

lemma logger_for_mono:
  "map_of (loggers em) s = Some p \<Longrightarrow> map_of (loggers (snd (logger_for cfg fe app em))) s = Some p"
  by (auto simp: logger_for_def Let_def dict_simps split: option.splits)

lemma emit_one_mono:
  "map_of (loggers em) s = Some p \<Longrightarrow> map_of (loggers (emit_one cfg e em)) s = Some p"
  using emit_state [of cfg "em_env e" "em_app e" "em_body e" "em_level e" "em_trace e" "em_span e" "em_attrs e" em]
    logger_for_mono [of em s p] unfolding emit_one_def by metis

text \<open>An identifier the emitter accepts: absent, or non-zero lower-case hexadecimal of the given length.\<close>

definition valid_hex_id :: "nat \<Rightarrow> string option \<Rightarrow> bool" where
  "valid_hex_id n x =
     (case x of None \<Rightarrow> True
      | Some s \<Rightarrow> length s = n \<and> set s \<subseteq> set hex_alphabet \<and> set s \<noteq> {CHR ''0''})"

lemma hex_id_value_valid:
  assumes "valid_hex_id n x" "0 < n"
  obtains "x = None" "hex_id_value x = Inr None"
  | s v where "x = Some s" "hex_id_value x = Inr (Some (int v))" "py_int16 s = Some (int v)" "0 < v" "v < 16 ^ n"
proof (cases x)
  case None
  then show ?thesis using that(1) by (simp add: hex_id_value_def)
next
  case (Some s)
  then have s: "s \<noteq> []" "set s \<subseteq> set hex_alphabet" "length s = n" "set s \<noteq> {CHR ''0''}"
    using assms by (auto simp: valid_hex_id_def)
  obtain v where v: "py_int16 s = Some (int v)" "v < 16 ^ length s" "v = 0 \<longleftrightarrow> set s \<subseteq> {CHR ''0''}"
    using py_int16_hex [OF s(1,2)] by blast
  have "\<not> set s \<subseteq> {CHR ''0''}" using s(1,4) by (metis set_empty subset_singletonD)
  then have "hex_id_value x = Inr (Some (int v))" "0 < v"
    using v s(1) Some by (auto simp: hex_id_value_def)
  then show ?thesis using that(2) v s(3) Some by metis
qed

lemma drop_none_Nil [simp]: "drop_none [] = []"
  by (simp add: drop_none_def)

lemma drop_none_Cons [simp]:
  "drop_none ((k, v) # d) = (case v of None \<Rightarrow> drop_none d | Some x \<Rightarrow> (k, x) # drop_none d)"
  by (cases v) (simp_all add: drop_none_def)

lemma keys_drop_none: "set (keys (drop_none d)) \<subseteq> set (keys d)"
  unfolding drop_none_def map_filter_def by auto force

lemma map_of_drop_none:
  "distinct (keys d) \<Longrightarrow> map_of (drop_none d) k = (case map_of d k of None \<Rightarrow> None | Some v \<Rightarrow> v)"
proof (induction d)
  case (Cons a d)
  obtain k' v where a: "a = (k', v)" by force
  have "k' \<notin> set (keys (drop_none d))" using Cons.prems keys_drop_none [of d] by (auto simp: a)
  then have "map_of (drop_none d) k' = None" by (simp add: map_of_eq_None_iff)
  then show ?case using Cons by (cases v) (auto simp: a)
qed simp

section \<open>Valid identifiers and full registries\<close>

definition id_value_ok :: "nat \<Rightarrow> string option \<Rightarrow> int option \<Rightarrow> bool" where
  "id_value_ok bits x v =
     (case v of None \<Rightarrow> x = None
      | Some k \<Rightarrow> 0 < k \<and> k < 2 ^ bits \<and> x \<noteq> None \<and> py_int16 (the x) = Some k)"

lemma hex_id_value_ok:
  assumes "valid_hex_id n x" "0 < n"
  obtains v where "hex_id_value x = Inr v" "id_value_ok (4 * n) x v" "opt_truthy x \<longleftrightarrow> x \<noteq> None"
proof -
  have pow: "(2 :: int) ^ (4 * n) = 16 ^ n" by (simp add: power_mult)
  show ?thesis
  proof (rule hex_id_value_valid [OF assms])
    assume "x = None" "hex_id_value x = Inr None"
    then show ?thesis using that [of None] by (simp add: id_value_ok_def)
  next
    fix s v
    assume v: "x = Some s" "hex_id_value x = Inr (Some (int v))" "py_int16 s = Some (int v)" "0 < v" "v < 16 ^ n"
    then have "int v < 2 ^ (4 * n)" using pow by (metis of_nat_less_iff of_nat_numeral of_nat_power)
    moreover have "s \<noteq> []" using assms v(1) by (auto simp: valid_hex_id_def)
    ultimately show ?thesis using that [of "Some (int v)"] v by (simp add: id_value_ok_def)
  qed
qed

lemma make_record_valid:
  assumes "map_of SEVERITY level = Some (number, txt)" "valid_hex_id 32 tr" "valid_hex_id 16 sp"
  obtains t s where "id_value_ok 128 tr t" "id_value_ok 64 sp s"
    "\<And>n attrs. make_record n body level tr sp attrs =
      Inr \<lparr>timestamp = n, observed_timestamp = n, trace_id = t, span_id = s, sampled = (tr \<noteq> None),
           severity_number = number, severity_text = txt, record_body = body, record_attributes = attrs\<rparr>"
proof -
  obtain t where t: "hex_id_value tr = Inr t" "id_value_ok 128 tr t" "opt_truthy tr \<longleftrightarrow> tr \<noteq> None"
    using hex_id_value_ok [OF assms(2)] by auto
  obtain s where s: "hex_id_value sp = Inr s" "id_value_ok 64 sp s"
    using hex_id_value_ok [OF assms(3)] by auto
  show ?thesis by (rule that [OF t(2) s(2)]) (simp add: make_record_def assms(1) t s)
qed

lemma make_record_returns:
  assumes "map_of SEVERITY level \<noteq> None" "valid_hex_id 32 tr" "valid_hex_id 16 sp"
  shows "\<exists>rec. make_record n body level tr sp attrs = Inr rec"
proof -
  obtain number tx where "map_of SEVERITY level = Some (number, tx)" using assms(1) by force
  from make_record_valid [OF this assms(2,3), of body] show ?thesis by metis
qed

text \<open>
  What the outcome of an emission tells of its event.  Without an endpoint it is a line of the event on stdout; with one,
  the record handed to the event's own provider or the shared one; and the emission fails only when the SDK did, while
  building a provider or taking the record.
\<close>

definition emitted_as ::
  "settings \<Rightarrow> emit_env \<Rightarrow> string option \<Rightarrow> string \<Rightarrow> string \<Rightarrow> string option \<Rightarrow> string option
   \<Rightarrow> (string, string option) dict \<Rightarrow> emit_out \<Rightarrow> bool" where
  "emitted_as cfg env app body level tr sp attrs out \<longleftrightarrow>
     (case out of
        Stdout app' level' body' clean \<Rightarrow>
          otel_endpoint cfg = [] \<and> app' = app \<and> level' = level \<and> body' = body \<and> clean = drop_none attrs
      | Otlp_emit_failed exc \<Rightarrow>
          otel_endpoint cfg \<noteq> [] \<and> (factory_error env = Some exc \<or> sink_error env = Some exc)
      | Exported lgr rec \<Rightarrow>
          otel_endpoint cfg \<noteq> [] \<and> sink_error env = None \<and> resource_service lgr \<in> {app_service app, FALLBACK_SERVICE}
          \<and> timestamp rec = time_ns env \<and> observed_timestamp rec = time_ns env
          \<and> map_of SEVERITY level = Some (severity_number rec, severity_text rec)
          \<and> record_body rec = body \<and> record_attributes rec = drop_none attrs
          \<and> sampled rec = (tr \<noteq> None) \<and> id_value_ok 128 tr (trace_id rec) \<and> id_value_ok 64 sp (span_id rec))"

lemma logger_for_error: "logger_for cfg fe app em = (Inl exc, em') \<Longrightarrow> fe = Some exc"
  by (auto simp: logger_for_def Let_def split: option.splits if_splits)

lemma emit_valid:
  assumes "map_of SEVERITY level \<noteq> None" "valid_hex_id 32 tr" "valid_hex_id 16 sp" "emitter_ok em"
  shows "\<exists>out. fst (emit cfg env app body level tr sp attrs em) = Inr out \<and> emitted_as cfg env app body level tr sp attrs out"
proof -
  obtain number tx where sev: "map_of SEVERITY level = Some (number, tx)" using assms(1) by force
  obtain t s where ids: "id_value_ok 128 tr t" "id_value_ok 64 sp s"
    and rec: "\<And>n attrs. make_record n body level tr sp attrs =
      Inr \<lparr>timestamp = n, observed_timestamp = n, trace_id = t, span_id = s, sampled = (tr \<noteq> None),
           severity_number = number, severity_text = tx, record_body = body, record_attributes = attrs\<rparr>"
    using make_record_valid [OF sev assms(2,3), of body] by blast
  have service: "resource_service lgr \<in> {app_service app, FALLBACK_SERVICE}"
    if "logger_for cfg (factory_error env) app em = (Inr lgr, em')" for lgr em'
    using logger_for_service [OF assms(4) that] by simp
  obtain r em' where l: "logger_for cfg (factory_error env) app em = (r, em')" by force
  show ?thesis
    using service ids sev l logger_for_error
    by (cases r; cases "sink_error env") (auto simp: emit_def emitted_as_def Let_def rec)
qed

lemma emit_returns:
  assumes "map_of SEVERITY level \<noteq> None" "valid_hex_id 32 tr" "valid_hex_id 16 sp"
  shows "\<exists>out. fst (emit cfg env app body level tr sp attrs em) = Inr out"
proof -
  obtain rec where "make_record (time_ns env) body level tr sp (drop_none attrs) = Inr rec"
    using make_record_returns [OF assms] by blast
  then show ?thesis
    by (auto simp: emit_def Let_def split: sum.splits prod.splits option.splits)
qed

definition app_event :: "string \<Rightarrow> emission" where
  "app_event a = \<lparr>em_env = \<lparr>time_ns = 0, factory_error = None, sink_error = None\<rparr>, em_app = Some a,
     em_body = ''m'', em_level = ''info'', em_trace = None, em_span = None, em_attrs = []\<rparr>"

lemma make_record_info: "\<exists>r. make_record t b ''info'' None None ats = Inr r"
  by (simp add: make_record_def SEVERITY_def hex_id_value_def)

lemma emit_app_event:
  assumes "otel_endpoint cfg \<noteq> []"
  shows "emit_one cfg (app_event a) em = snd (logger_for cfg None (Some a) em)"
proof -
  obtain r where "make_record 0 ''m'' ''info'' None None (drop_none []) = Inr r"
    using make_record_info by blast
  then show ?thesis
    using assms by (auto simp: emit_one_def app_event_def emit_def Let_def split: sum.splits prod.splits)
qed

definition app_events :: "nat \<Rightarrow> emission list" where
  "app_events n = map (\<lambda>i. app_event (dec_digits i)) [0..<n]"

lemma emit_run_app_events:
  "emit_run cfg (app_events (Suc n)) em = emit_one cfg (app_event (dec_digits n)) (emit_run cfg (app_events n) em)"
  by (simp add: emit_run_def app_events_def)

lemma fill_registry:
  assumes "otel_endpoint cfg \<noteq> []" "n \<le> MAX_APP_SERVICES"
  shows "keys (loggers (emit_run cfg (app_events n) new_emitter))
       = map (\<lambda>i. app_service (Some (dec_digits i))) [0..<n]"
  using assms(2)
proof (induction n)
  case (Suc n)
  define em where "em = emit_run cfg (app_events n) new_emitter"
  have keys: "keys (loggers em) = map (\<lambda>i. app_service (Some (dec_digits i))) [0..<n]"
    using Suc by (simp add: em_def)
  have new: "app_service (Some (dec_digits n)) \<notin> set (keys (loggers em))"
    unfolding keys by (auto simp: app_service_def)
  then have "map_of (loggers em) (app_service (Some (dec_digits n))) = None"
    by (simp add: map_of_eq_None_iff)
  moreover have "length (loggers em) < MAX_APP_SERVICES"
    using keys Suc.prems by (metis length_map length_upt minus_nat.diff_0 Suc_le_lessD)
  ultimately have "keys (loggers (emit_one cfg (app_event (dec_digits n)) em))
      = keys (loggers em) @ [app_service (Some (dec_digits n))]"
    using dict_update_new [OF new]
    by (simp add: emit_app_event [OF assms(1)] logger_for_def Let_def)
  then show ?case by (simp add: emit_run_app_events keys flip: em_def)
qed (simp add: emit_run_def app_events_def new_emitter_def)

section \<open>Properties\<close>

text \<open>The registry of providers is bounded.  Whatever events are emitted and whatever fails in the
  SDK, at most \<open>MAX_APP_SERVICES\<close> (32) providers belong to apps, at most 33 exist in all, and each
  is registered under its own \<open>service.name\<close>, which is \<open>frontend\<close> or \<open>frontend/<app>\<close>.\<close>

theorem registry_bounded:
  "let em = emit_run cfg es new_emitter
   in length (app_keys em) \<le> MAX_APP_SERVICES \<and> length (providers em) \<le> Suc MAX_APP_SERVICES
      \<and> providers em = loggers em
      \<and> list_all (\<lambda>(s, p). resource_service p = s \<and> (\<exists>app. s = app_service app)) (providers em)"
  using emit_run_ok [OF emitter_ok_new, of cfg es] emitter_ok_length [of "emit_run cfg es new_emitter"]
  by (auto simp: emitter_ok_def Let_def)

text \<open>The bound of 33 is reached.  After events of 33 different apps there are 33 providers: the
  33rd event builds the shared \<open>frontend\<close> provider on top of the 32 app providers, although the
  design promises at most 32.\<close>

theorem registry_reaches_33:
  assumes "otel_endpoint cfg \<noteq> []"
  shows "length (providers (emit_run cfg (app_events 33) new_emitter)) = 33"
proof -
  define em where "em = emit_run cfg (app_events 32) new_emitter"
  have keys: "keys (loggers em) = map (\<lambda>i. app_service (Some (dec_digits i))) [0..<32]"
    unfolding em_def using assms by (rule fill_registry) (simp add: MAX_APP_SERVICES_def)
  have "app_service (Some (dec_digits 32)) \<notin> set (keys (loggers em))" "FALLBACK_SERVICE \<notin> set (keys (loggers em))"
    unfolding keys by (auto simp: app_service_def FALLBACK_SERVICE_def)
  then have "map_of (loggers em) (app_service (Some (dec_digits 32))) = None"
    "map_of (loggers em) FALLBACK_SERVICE = None"
    and new: "FALLBACK_SERVICE \<notin> set (keys (loggers em))"
    by (simp_all add: map_of_eq_None_iff)
  moreover have len: "length (loggers em) = 32"
    using keys by (metis length_map length_upt minus_nat.diff_0)
  ultimately have "length (loggers (emit_one cfg (app_event (dec_digits 32)) em)) = 33"
    using dict_update_new [OF new]
    by (simp add: emit_app_event [OF assms] logger_for_def Let_def MAX_APP_SERVICES_def)
  moreover have "emit_run cfg (app_events 33) new_emitter = emit_one cfg (app_event (dec_digits 32)) em"
    using emit_run_app_events [of cfg 32] by (simp add: em_def)
  moreover have "providers (emit_run cfg (app_events 33) new_emitter) = loggers (emit_run cfg (app_events 33) new_emitter)"
    using emit_run_ok [OF emitter_ok_new, of cfg "app_events 33"] by (simp add: emitter_ok_def)
  ultimately show ?thesis by (simp only:)
qed

theorem registry_reaches_33_witness:
  "length (providers (emit_run default_settings (app_events 33) new_emitter)) = 33"
  by (rule registry_reaches_33) (simp add: default_settings_def)

text \<open>An app keeps its own service.  An exported event carries the service of its app if that app is
  registered or there is room, and the shared \<open>frontend\<close> otherwise; once registered, an app keeps
  the same logger through every later event.\<close>

theorem emit_service:
  assumes "fst (emit cfg env app body level tr sp attrs (emit_run cfg es new_emitter)) = Inr (Exported lgr rec)"
  shows "resource_service lgr =
      (if app_service app \<notin> set (keys (loggers (emit_run cfg es new_emitter)))
          \<and> length (loggers (emit_run cfg es new_emitter)) \<ge> MAX_APP_SERVICES
       then FALLBACK_SERVICE else app_service app)"
proof -
  have "\<exists>em'. logger_for cfg (factory_error env) app (emit_run cfg es new_emitter) = (Inr lgr, em')"
    using assms by (auto simp: emit_def Let_def split: if_splits sum.splits prod.splits option.splits)
  then show ?thesis
    using logger_for_service [OF emit_run_ok [OF emitter_ok_new]] by blast
qed

theorem emit_service_witness:
  "\<exists>lgr rec. fst (emit default_settings \<lparr>time_ns = 7, factory_error = None, sink_error = None\<rparr> (Some ''web'')
       ''boom'' ''error'' None None [] (emit_run default_settings [] new_emitter)) = Inr (Exported lgr rec)
     \<and> resource_service lgr = ''frontend/web''"
proof -
  obtain lgr rec where e: "fst (emit default_settings \<lparr>time_ns = 7, factory_error = None, sink_error = None\<rparr> (Some ''web'')
       ''boom'' ''error'' None None [] (emit_run default_settings [] new_emitter)) = Inr (Exported lgr rec)"
    by (simp add: emit_def Let_def default_settings_def make_record_def SEVERITY_def hex_id_value_def
        logger_for_def emit_run_def new_emitter_def)
  from emit_service [OF e] show ?thesis
    using e by (auto simp: emit_run_def new_emitter_def MAX_APP_SERVICES_def app_service_def FALLBACK_SERVICE_def)
qed

text \<open>C31: what becomes of a validated event.  With a level of the severity table and identifiers that are absent or
  non-zero hexadecimal of the W3C lengths, \<open>emit\<close> returns normally whatever the SDK does.  It fails only when the SDK
  raised; otherwise the event goes to stdout when no endpoint is set, and else a record is handed to its own or the
  shared provider that has the clock of the call, the severity of its level, its body, exactly the attributes that
  are not \<open>None\<close>, and the trace and span identifier as non-zero integers below 2^128 and 2^64.\<close>

theorem emit_valid_event:
  assumes "map_of SEVERITY level \<noteq> None" "valid_hex_id 32 tr" "valid_hex_id 16 sp" "emitter_ok em"
  shows "\<exists>out. fst (emit cfg env app body level tr sp attrs em) = Inr out \<and> emitted_as cfg env app body level tr sp attrs out"
  using assms by (rule emit_valid)

theorem emit_valid_event_witness:
  "\<exists>lgr rec. fst (emit default_settings \<lparr>time_ns = 5, factory_error = None, sink_error = None\<rparr> (Some ''web'') ''boom'' ''warning''
       (Some ''4bf92f3577b34da6a3ce929d0e0e4736'') None [(''user_id'', None)] new_emitter) = Inr (Exported lgr rec)
     \<and> timestamp rec = 5 \<and> severity_text rec = ''WARNING'' \<and> trace_id rec = Some 100985939111033328018442752961257817910
     \<and> record_attributes rec = []"
proof -
  let ?t = "Some ''4bf92f3577b34da6a3ce929d0e0e4736''" and ?env = "\<lparr>time_ns = 5, factory_error = None, sink_error = None\<rparr>"
  have ids: "valid_hex_id 32 ?t" "valid_hex_id 16 None" by (simp_all add: valid_hex_id_def hex_alphabet_def)
  have sev: "map_of SEVERITY ''warning'' = Some (WARN, ''WARNING'')" by (simp add: SEVERITY_def)
  then have "map_of SEVERITY ''warning'' \<noteq> None" by simp
  from emit_valid_event [OF this ids emitter_ok_new, of default_settings ?env "Some ''web''" "''boom''" "[(''user_id'', None)]"]
  obtain out where out: "fst (emit default_settings ?env (Some ''web'') ''boom'' ''warning'' ?t None [(''user_id'', None)] new_emitter) = Inr out"
    "emitted_as default_settings ?env (Some ''web'') ''boom'' ''warning'' ?t None [(''user_id'', None)] out" by blast
  moreover have "otel_endpoint default_settings \<noteq> []" by (simp add: default_settings_def)
  moreover have "py_int16 (the ?t) = Some 100985939111033328018442752961257817910"
    by (simp add: py_int16_def hex_unsigned_def hex_digit_def is_digit_def py_strip_def py_lstrip_def
        is_space_def py_startswith_def)
  ultimately show ?thesis
    by (cases out) (auto simp: emitted_as_def id_value_ok_def sev split: option.splits)
qed

end
