(* ===== verification/GwValidate.thy ===== *)
theory GwValidate
  imports GwEmit
begin

text \<open>
  Validation of telemetry events and batches (the Pydantic models of \<open>obs_gateway/ingest.py\<close>).

  A parsed JSON body is a \<^typ>\<open>pyval\<close>.  \<open>dump_len\<close>, the number of bytes of Pydantic's
  \<open>model_dump_json(exclude_defaults=True)\<close> of an event, is a parameter.  A validation error is the name
  of the offending field (any error makes the answer 422).
\<close>

section \<open>The models\<close>

definition EVENT_TYPES :: "string list" where
  "EVENT_TYPES = [''log'', ''error'', ''event'', ''perf'']"

definition MAX_CONTEXT_ENTRIES :: nat where
  "MAX_CONTEXT_ENTRIES = 32"

record telemetry_event =
  ev_type :: string
  ev_level :: string
  ev_message :: string
  ev_error :: "string option"
  ev_stack :: "string option"
  ev_url :: "string option"
  ev_app :: "string option"
  ev_app_version :: "string option"
  ev_trace_id :: "string option"
  ev_span_id :: "string option"
  ev_context :: "(string, string) dict"

definition hex_id :: "pyval \<Rightarrow> nat \<Rightarrow> string + pyval" where
  "hex_id value n =
     (case value of
        PStr s \<Rightarrow>
          (let v = py_lower (py_strip s)
           in if length v \<noteq> n \<or> list_ex (\<lambda>c. c \<notin> set hex_alphabet) v \<or> set v = {CHR ''0''}
              then Inl ''hex id'' else Inr (PStr v))
      | _ \<Rightarrow> Inr value)"

definition normalize_level :: "pyval \<Rightarrow> string + pyval" where
  "normalize_level value =
     (case value of
        PStr s \<Rightarrow>
          (let v = py_lower (py_strip s)
           in if v \<notin> set (keys SEVERITY) then Inl ''level'' else Inr (PStr v))
      | _ \<Rightarrow> Inr value)"

definition app_char :: "char \<Rightarrow> bool" where
  "app_char c = (is_alpha_ascii c \<or> is_digit c \<or> c \<in> set ''._-'')"

text \<open>A declared \<open>str\<close> field with its \<open>max_length\<close>, and a declared \<open>str | None\<close> one.\<close>

definition check_str :: "string \<Rightarrow> nat \<Rightarrow> pyval \<Rightarrow> string + string" where
  "check_str name m v =
     (case v of PStr s \<Rightarrow> (if length s \<le> m then Inr s else Inl name) | _ \<Rightarrow> Inl name)"

definition check_opt_str :: "string \<Rightarrow> nat option \<Rightarrow> pyval \<Rightarrow> string + string option" where
  "check_opt_str name m v =
     (case v of
        PNone \<Rightarrow> Inr None
      | PStr s \<Rightarrow> (if (case m of None \<Rightarrow> True | Some k \<Rightarrow> length s \<le> k) then Inr (Some s) else Inl name)
      | _ \<Rightarrow> Inl name)"

definition check_app :: "pyval \<Rightarrow> string + string option" where
  "check_app v =
     (case check_opt_str ''app'' (Some 64) v of
        Inr (Some s) \<Rightarrow> (if s \<noteq> [] \<and> list_all app_char s then Inr (Some s) else Inl ''app'')
      | r \<Rightarrow> r)"

fun check_entries :: "(string \<times> pyval) list \<Rightarrow> string + (string, string) dict" where
  "check_entries [] = Inr []"
| "check_entries ((k, v) # kvs) =
     (if length k < 1 \<or> 128 < length k then Inl ''context''
      else case check_str ''context'' 1024 v of
             Inl e \<Rightarrow> Inl e
           | Inr s \<Rightarrow> (case check_entries kvs of Inl e \<Rightarrow> Inl e | Inr d \<Rightarrow> Inr ((k, s) # d)))"

definition check_context :: "pyval \<Rightarrow> string + (string, string) dict" where
  "check_context v =
     (case v of
        PDict kvs \<Rightarrow> (if length kvs > MAX_CONTEXT_ENTRIES then Inl ''context'' else check_entries kvs)
      | _ \<Rightarrow> Inl ''context'')"

text \<open>A field that is absent takes its default, which is not validated.\<close>

definition field :: "(string, pyval) dict \<Rightarrow> string \<Rightarrow> 'a \<Rightarrow> (pyval \<Rightarrow> string + 'a) \<Rightarrow> string + 'a" where
  "field raw name d check = (case map_of raw name of None \<Rightarrow> Inr d | Some v \<Rightarrow> check v)"

definition and_then :: "string + 'a \<Rightarrow> ('a \<Rightarrow> string + 'b) \<Rightarrow> string + 'b" where
  "and_then r f = (case r of Inl e \<Rightarrow> Inl e | Inr x \<Rightarrow> f x)"

definition check_type :: "pyval \<Rightarrow> string + string" where
  "check_type v = (case v of PStr s \<Rightarrow> (if s \<in> set EVENT_TYPES then Inr s else Inl ''type'') | _ \<Rightarrow> Inl ''type'')"

definition check_level :: "pyval \<Rightarrow> string + string" where
  "check_level v =
     and_then (normalize_level v) (\<lambda>w. case w of PStr s \<Rightarrow> Inr s | _ \<Rightarrow> Inl ''level'')"

definition check_hex :: "string \<Rightarrow> nat \<Rightarrow> pyval \<Rightarrow> string + string option" where
  "check_hex name n v = and_then (hex_id v n) (check_opt_str name None)"

definition event_fields :: "(string, pyval) dict \<Rightarrow> string + telemetry_event" where
  "event_fields raw =
     and_then (field raw ''type'' ''log'' check_type) (\<lambda>ty.
     and_then (field raw ''level'' ''info'' check_level) (\<lambda>lv.
     and_then (field raw ''message'' [] (check_str ''message'' 2000)) (\<lambda>msg.
     and_then (field raw ''error'' None (check_opt_str ''error'' (Some 2000))) (\<lambda>er.
     and_then (field raw ''stack'' None (check_opt_str ''stack'' (Some 8000))) (\<lambda>st.
     and_then (field raw ''url'' None (check_opt_str ''url'' (Some 2000))) (\<lambda>ur.
     and_then (field raw ''app'' None check_app) (\<lambda>ap.
     and_then (field raw ''app_version'' None (check_opt_str ''app_version'' (Some 64))) (\<lambda>av.
     and_then (field raw ''trace_id'' None (check_hex ''trace_id'' 32)) (\<lambda>tr.
     and_then (field raw ''span_id'' None (check_hex ''span_id'' 16)) (\<lambda>sp.
     and_then (field raw ''context'' [] check_context) (\<lambda>cx.
       Inr \<lparr>ev_type = ty, ev_level = lv, ev_message = msg, ev_error = er, ev_stack = st, ev_url = ur,
            ev_app = ap, ev_app_version = av, ev_trace_id = tr, ev_span_id = sp, ev_context = cx\<rparr>)))))))))))"

definition event_size :: "settings \<Rightarrow> (telemetry_event \<Rightarrow> nat) \<Rightarrow> telemetry_event \<Rightarrow> string + telemetry_event" where
  "event_size cfg dump_len ev = (if int (dump_len ev) > max_event_bytes cfg then Inl ''event'' else Inr ev)"

definition validate_event :: "settings \<Rightarrow> (telemetry_event \<Rightarrow> nat) \<Rightarrow> pyval \<Rightarrow> string + telemetry_event" where
  "validate_event cfg dump_len v =
     (case v of PDict raw \<Rightarrow> and_then (event_fields raw) (event_size cfg dump_len) | _ \<Rightarrow> Inl ''event'')"

fun validate_events :: "settings \<Rightarrow> (telemetry_event \<Rightarrow> nat) \<Rightarrow> pyval list \<Rightarrow> string + telemetry_event list" where
  "validate_events cfg dump_len [] = Inr []"
| "validate_events cfg dump_len (v # vs) =
     and_then (validate_event cfg dump_len v) (\<lambda>e.
     and_then (validate_events cfg dump_len vs) (\<lambda>es. Inr (e # es)))"

definition batch_size :: "settings \<Rightarrow> telemetry_event list \<Rightarrow> string + telemetry_event list" where
  "batch_size cfg evs = (if int (length evs) > max_batch_events cfg then Inl ''events'' else Inr evs)"

definition validate_batch :: "settings \<Rightarrow> (telemetry_event \<Rightarrow> nat) \<Rightarrow> pyval \<Rightarrow> string + telemetry_event list" where
  "validate_batch cfg dump_len body =
     (case body of
        PDict raw \<Rightarrow>
          field raw ''events'' [] (\<lambda>v. case v of
             PList vs \<Rightarrow> and_then (validate_events cfg dump_len vs) (batch_size cfg)
           | _ \<Rightarrow> Inl ''events'')
      | _ \<Rightarrow> Inl ''body'')"

section \<open>Valid events\<close>

definition cap_opt :: "nat \<Rightarrow> string option \<Rightarrow> bool" where
  "cap_opt n x = (case x of None \<Rightarrow> True | Some s \<Rightarrow> length s \<le> n)"

definition app_ok :: "string option \<Rightarrow> bool" where
  "app_ok x = (case x of None \<Rightarrow> True | Some s \<Rightarrow> s \<noteq> [] \<and> length s \<le> 64 \<and> list_all app_char s)"

definition context_ok :: "(string, string) dict \<Rightarrow> bool" where
  "context_ok d \<longleftrightarrow> length d \<le> MAX_CONTEXT_ENTRIES
     \<and> list_all (\<lambda>(k, s). k \<noteq> [] \<and> length k \<le> 128 \<and> length s \<le> 1024) d"

text \<open>What the rest of the gateway may rely on.\<close>

definition fields_ok :: "telemetry_event \<Rightarrow> bool" where
  "fields_ok ev \<longleftrightarrow>
     ev_type ev \<in> set EVENT_TYPES \<and> ev_level ev \<in> set (keys SEVERITY) \<and> length (ev_message ev) \<le> 2000
     \<and> cap_opt 2000 (ev_error ev) \<and> cap_opt 8000 (ev_stack ev) \<and> cap_opt 2000 (ev_url ev)
     \<and> app_ok (ev_app ev) \<and> cap_opt 64 (ev_app_version ev)
     \<and> valid_hex_id 32 (ev_trace_id ev) \<and> valid_hex_id 16 (ev_span_id ev) \<and> context_ok (ev_context ev)"

definition event_ok :: "settings \<Rightarrow> (telemetry_event \<Rightarrow> nat) \<Rightarrow> telemetry_event \<Rightarrow> bool" where
  "event_ok cfg dump_len ev \<longleftrightarrow> fields_ok ev \<and> int (dump_len ev) \<le> max_event_bytes cfg"

text \<open>A valid event as the JSON object that states every field.\<close>

definition event_json :: "telemetry_event \<Rightarrow> pyval" where
  "event_json ev = PDict
     [(''type'', PStr (ev_type ev)), (''level'', PStr (ev_level ev)), (''message'', PStr (ev_message ev)),
      (''error'', pstr_opt (ev_error ev)), (''stack'', pstr_opt (ev_stack ev)), (''url'', pstr_opt (ev_url ev)),
      (''app'', pstr_opt (ev_app ev)), (''app_version'', pstr_opt (ev_app_version ev)),
      (''trace_id'', pstr_opt (ev_trace_id ev)), (''span_id'', pstr_opt (ev_span_id ev)),
      (''context'', PDict (map (\<lambda>(k, v). (k, PStr v)) (ev_context ev)))]"

lemma and_then_Inr_iff: "and_then r f = Inr y \<longleftrightarrow> (\<exists>x. r = Inr x \<and> f x = Inr y)"
  by (cases r) (auto simp: and_then_def)

lemma and_thenE: "and_then r f = Inr y \<Longrightarrow> (\<And>x. r = Inr x \<Longrightarrow> f x = Inr y \<Longrightarrow> thesis) \<Longrightarrow> thesis"
  by (auto simp: and_then_Inr_iff)

lemma and_then_Inr_simp [simp]: "and_then (Inr x) f = f x"
  by (simp add: and_then_def)

lemma field_ok:
  assumes "field raw name d check = Inr x" "Q d" "\<And>v y. check v = Inr y \<Longrightarrow> Q y"
  shows "Q x"
  using assms by (auto simp: field_def split: option.splits)

lemma check_str_ok: "check_str name m v = Inr s \<Longrightarrow> length s \<le> m"
  by (auto simp: check_str_def split: pyval.splits if_splits)

lemma check_opt_str_ok: "check_opt_str name (Some m) v = Inr x \<Longrightarrow> cap_opt m x"
  by (auto simp: check_opt_str_def cap_opt_def split: pyval.splits if_splits)

lemma check_app_ok: "check_app v = Inr x \<Longrightarrow> app_ok x"
  by (auto simp: check_app_def check_opt_str_def app_ok_def split: pyval.splits if_splits)

lemma check_type_ok: "check_type v = Inr s \<Longrightarrow> s \<in> set EVENT_TYPES"
  by (auto simp: check_type_def split: pyval.splits if_splits)

lemma check_level_ok: "check_level v = Inr s \<Longrightarrow> s \<in> set (keys SEVERITY)"
  by (cases v) (auto simp: check_level_def normalize_level_def Let_def and_then_def simp del: set_map split: if_splits)

lemma check_hex_ok:
  assumes "0 < n" "check_hex name n v = Inr x"
  shows "valid_hex_id n x"
  using assms
  by (cases v) (auto simp: check_hex_def hex_id_def check_opt_str_def valid_hex_id_def and_then_def Let_def list_ex_iff
      split: if_splits)

lemma check_entries_ok:
  "check_entries kvs = Inr d \<Longrightarrow> map fst d = map fst kvs
     \<and> list_all (\<lambda>(k, s). k \<noteq> [] \<and> length k \<le> 128 \<and> length s \<le> 1024) d"
proof (induction kvs arbitrary: d)
  case (Cons kv kvs)
  obtain k v where kv: "kv = (k, v)" by force
  obtain s d' where "check_str ''context'' 1024 v = Inr s" "check_entries kvs = Inr d'" "d = (k, s) # d'"
    "k \<noteq> []" "length k \<le> 128"
    using Cons.prems by (auto simp: kv split: if_splits sum.splits)
  then show ?case using Cons.IH [of d'] check_str_ok [of "''context''" 1024 v s] by (simp add: kv)
qed simp

lemma check_context_ok:
  assumes "check_context v = Inr d"
  shows "context_ok d"
proof -
  obtain kvs where kvs: "length kvs \<le> MAX_CONTEXT_ENTRIES" "check_entries kvs = Inr d"
    using assms by (cases v) (auto simp: check_context_def not_less split: if_splits)
  note e = check_entries_ok [OF kvs(2)]
  have "length d = length kvs" by (rule map_eq_imp_length_eq) (rule conjunct1 [OF e])
  then show ?thesis using kvs(1) conjunct2 [OF e] by (simp add: context_ok_def)
qed

lemma defaults_ok:
  "''log'' \<in> set EVENT_TYPES" "''info'' \<in> set (keys SEVERITY)" "cap_opt n None" "app_ok None"
  "valid_hex_id n None" "context_ok []"
  by (simp_all add: EVENT_TYPES_def SEVERITY_def cap_opt_def app_ok_def valid_hex_id_def context_ok_def)

lemmas field_dests =
  field_ok [where Q = "\<lambda>s. s \<in> set EVENT_TYPES", OF _ defaults_ok(1) check_type_ok]
  field_ok [where Q = "\<lambda>s. s \<in> set (keys SEVERITY)", OF _ defaults_ok(2) check_level_ok]
  field_ok [where Q = "cap_opt n", OF _ defaults_ok(3) check_opt_str_ok] for n
lemmas field_dests' =
  field_ok [where Q = app_ok, OF _ defaults_ok(4) check_app_ok]
  field_ok [where Q = context_ok, OF _ defaults_ok(6) check_context_ok]

lemma event_fields_ok:
  assumes "event_fields raw = Inr ev"
  shows "fields_ok ev"
proof -
  have msg: "length s \<le> 2000" if "field raw ''message'' [] (check_str ''message'' 2000) = Inr s" for s
    using that by (rule field_ok) (auto dest: check_str_ok)
  have ids: "valid_hex_id n x" if "field raw name None (check_hex name n) = Inr x" "0 < n" for name n x
    using that(1) defaults_ok(5) by (rule field_ok) (rule check_hex_ok [OF that(2)])
  show ?thesis
    using assms unfolding event_fields_def
    by (elim and_thenE) (auto simp: fields_ok_def simp del: set_map dest: msg ids field_dests field_dests')
qed

lemma event_size_Inr: "event_size cfg dump_len e = Inr ev \<longleftrightarrow> e = ev \<and> int (dump_len ev) \<le> max_event_bytes cfg"
  by (auto simp: event_size_def)

lemma validate_event_Inr:
  "validate_event cfg dump_len v = Inr ev \<longleftrightarrow>
     (\<exists>raw. v = PDict raw \<and> event_fields raw = Inr ev \<and> int (dump_len ev) \<le> max_event_bytes cfg)"
  by (cases v) (simp_all add: validate_event_def and_then_Inr_iff event_size_Inr)

lemma validate_event_ok: "validate_event cfg dump_len v = Inr ev \<Longrightarrow> event_ok cfg dump_len ev"
  by (auto simp: validate_event_Inr event_ok_def event_fields_ok)

lemma validate_events_Inr:
  "validate_events cfg dump_len vs = Inr evs \<longleftrightarrow> map (validate_event cfg dump_len) vs = map Inr evs"
proof (induction vs arbitrary: evs)
  case (Cons v vs)
  then show ?case by (cases evs) (auto simp: and_then_Inr_iff)
qed auto

section \<open>Validation of what was validated\<close>

lemma hex_char_plain:
  assumes "c \<in> set hex_alphabet"
  shows "lower_char c = c" "\<not> is_space c"
  using assms by (auto simp: hex_alphabet_def lower_char_def is_space_def)

lemma hex_text_plain:
  assumes "set s \<subseteq> set hex_alphabet"
  shows "py_lower (py_strip s) = s"
proof -
  have "py_strip s = s" using assms hex_char_plain(2) by (intro py_strip_no_space) (auto simp: list_all_iff)
  moreover have "map lower_char s = s" using assms hex_char_plain(1) by (intro map_idI) auto
  ultimately show ?thesis by (simp add: py_lower_def)
qed

lemma level_plain: "s \<in> set (keys SEVERITY) \<Longrightarrow> py_lower (py_strip s) = s"
  by (auto simp: SEVERITY_def py_lower_def py_strip_def py_lstrip_def lower_char_def is_space_def)

lemma check_type_json: "s \<in> set EVENT_TYPES \<Longrightarrow> check_type (PStr s) = Inr s"
  by (simp add: check_type_def)

lemma check_level_json: "s \<in> set (keys SEVERITY) \<Longrightarrow> check_level (PStr s) = Inr s"
  using level_plain [of s] by (simp add: check_level_def normalize_level_def del: set_map)

lemma check_opt_str_json: "cap_opt m x \<Longrightarrow> check_opt_str name (Some m) (pstr_opt x) = Inr x"
  by (cases x) (simp_all add: check_opt_str_def cap_opt_def)

lemma check_app_json: "app_ok x \<Longrightarrow> check_app (pstr_opt x) = Inr x"
  by (cases x) (simp_all add: check_app_def check_opt_str_def app_ok_def)

lemma check_hex_json: "valid_hex_id n x \<Longrightarrow> check_hex name n (pstr_opt x) = Inr x"
  using hex_text_plain
  by (cases x) (auto simp: check_hex_def hex_id_def check_opt_str_def valid_hex_id_def
      and_then_def Let_def list_ex_iff)

lemma check_entries_json:
  "list_all (\<lambda>(k, s). k \<noteq> [] \<and> length k \<le> 128 \<and> length s \<le> 1024) d
   \<Longrightarrow> check_entries (map (\<lambda>(k, v). (k, PStr v)) d) = Inr d"
  by (induction d) (auto simp: check_str_def)

lemma check_context_json: "context_ok d \<Longrightarrow> check_context (PDict (map (\<lambda>(k, v). (k, PStr v)) d)) = Inr d"
  by (simp add: check_context_def context_ok_def check_entries_json)

lemma validate_event_json:
  assumes "event_ok cfg dump_len ev"
  shows "validate_event cfg dump_len (event_json ev) = Inr ev"
  using assms
  by (simp add: event_json_def validate_event_def event_fields_def field_def event_ok_def fields_ok_def
      event_size_Inr check_type_json check_level_json check_str_def check_opt_str_json check_app_json check_hex_json
      check_context_json del: set_map)

section \<open>Properties\<close>

text \<open>C19: validation of a batch.  An accepted batch is within the batch limit, and every event of it has a
  known type, a level of the severity table, identifiers that are absent or non-zero lower-case hexadecimal
  of the W3C lengths, every text within its cap, an app name of the allowed characters, at most 32 context
  entries within theirs, and a size within the event limit.  It is all or nothing: the accepted events are
  those of the body, one by one and in order.\<close>

theorem batch_valid:
  assumes "validate_batch cfg dump_len body = Inr evs"
  shows "int (length evs) \<le> max 0 (max_batch_events cfg) \<and> list_all (event_ok cfg dump_len) evs
    \<and> (\<exists>raw. body = PDict raw
         \<and> (case map_of raw ''events'' of None \<Rightarrow> evs = []
            | Some v \<Rightarrow> (\<exists>vs. v = PList vs \<and> map (validate_event cfg dump_len) vs = map Inr evs)))"
proof -
  obtain raw where raw: "body = PDict raw" using assms by (cases body) (simp_all add: validate_batch_def)
  show ?thesis
  proof (cases "map_of raw ''events''")
    case None
    then show ?thesis using assms raw by (simp add: validate_batch_def field_def)
  next
    case (Some v)
    obtain vs where vs: "v = PList vs" "validate_events cfg dump_len vs = Inr evs" "int (length evs) \<le> max_batch_events cfg"
      using assms raw Some
      by (cases v) (auto simp: validate_batch_def field_def batch_size_def and_then_Inr_iff split: if_splits)
    then have each: "map (validate_event cfg dump_len) vs = map Inr evs" by (simp add: validate_events_Inr)
    have "event_ok cfg dump_len e" if "e \<in> set evs" for e
    proof -
      have "Inr e \<in> set (map (validate_event cfg dump_len) vs)" unfolding each using that by simp
      then obtain w where "validate_event cfg dump_len w = Inr e" by auto
      then show ?thesis by (rule validate_event_ok)
    qed
    then show ?thesis using raw Some vs each by (simp add: list_all_iff)
  qed
qed

theorem batch_valid_witness:
  "\<exists>ev. validate_batch default_settings (\<lambda>ev. 40)
       (PDict [(''events'', PList [PDict [(''level'', PStr '' ERROR ''), (''message'', PStr ''boom'')]])]) = Inr [ev]
     \<and> ev_level ev = ''error'' \<and> event_ok default_settings (\<lambda>ev. 40) ev"
proof -
  let ?body = "PDict [(''events'', PList [PDict [(''level'', PStr '' ERROR ''), (''message'', PStr ''boom'')]])]"
  have level: "check_level (PStr '' ERROR '') = Inr ''error''"
    by (simp add: check_level_def normalize_level_def py_lower_def py_strip_def py_lstrip_def is_space_def
        lower_char_def SEVERITY_def char_eval)
  define ev where "ev = \<lparr>ev_type = ''log'', ev_level = ''error'', ev_message = ''boom'', ev_error = None, ev_stack = None,
    ev_url = None, ev_app = None, ev_app_version = None, ev_trace_id = None, ev_span_id = None, ev_context = []\<rparr>"
  have v: "validate_batch default_settings (\<lambda>ev. 40) ?body = Inr [ev]"
    by (simp add: validate_batch_def field_def validate_event_def event_fields_def level check_str_def
        event_size_def batch_size_def default_settings_def ev_def)
  have "list_all (event_ok default_settings (\<lambda>ev. 40)) [ev]" using batch_valid [OF v] by (rule conjunct1 [OF conjunct2])
  then show ?thesis using v by (intro exI [of _ ev]) (simp add: ev_def)
qed

text \<open>C32: validation is stable.  The JSON object that states all fields of a validated event validates to
  that event again: the normalisations (trimmed, lower-case levels and identifiers) are idempotent and
  nothing an event carries is lost or altered by validation.\<close>

theorem validate_event_stable:
  assumes "validate_event cfg dump_len v = Inr ev"
  shows "validate_event cfg dump_len (event_json ev) = Inr ev"
  by (rule validate_event_json) (rule validate_event_ok [OF assms])

theorem validate_event_stable_witness:
  "\<exists>ev. validate_event default_settings (\<lambda>ev. 40) (PDict [(''app'', PStr ''web'')]) = Inr ev
     \<and> validate_event default_settings (\<lambda>ev. 40) (event_json ev) = Inr ev"
proof -
  obtain ev where ev: "validate_event default_settings (\<lambda>ev. 40) (PDict [(''app'', PStr ''web'')]) = Inr ev"
    by (simp add: field_def validate_event_def event_fields_def check_app_def check_opt_str_def app_char_def
        is_alpha_ascii_def event_size_def default_settings_def)
  with validate_event_stable [OF ev] show ?thesis by blast
qed

end
