(* ===== verification/GwStack.thy ===== *)
theory GwStack
  imports GwConfig
begin

text \<open>
  The stack health monitor and the local fallback logs (\<open>obs_gateway/stack.py\<close>).

  \<open>FallbackLog\<close> is the record \<open>fallback\<close>: the open handlers, the files with their rotated backups
  (\<open>logging.handlers.RotatingFileHandler\<close> of the standard library), the warnings logged, and the
  counter \<open>obs_fallback_events_total\<close>.  \<open>StackMonitor\<close> is the record \<open>monitor\<close>; what a probe gets
  (an exception's class name or a status code), the clock texts and whether the log directory can be
  opened are arguments.  A write to an open file is taken to succeed.
\<close>

definition EVENTS_FILE :: string where
  "EVENTS_FILE = ''events.jsonl''"

definition HEALTH_FILE :: string where
  "HEALTH_FILE = ''stack-health.jsonl''"

section \<open>Rotating files\<close>

type_synonym path = "string \<times> string"

text \<open>The lines of the live file, and of the backups \<open>.1\<close>, \<open>.2\<close>, ... (newest first).\<close>

record rfile =
  current :: "string list"
  backups :: "string list list"

definition empty_file :: rfile where
  "empty_file = \<lparr>current = [], backups = []\<rparr>"

definition file_bytes :: "string list \<Rightarrow> int" where
  "file_bytes ls = int (sum_list (map (\<lambda>l. Suc (length l)) ls))"

definition should_rollover :: "int \<Rightarrow> string \<Rightarrow> rfile \<Rightarrow> bool" where
  "should_rollover max_bytes line f =
     (0 < max_bytes \<and> current f \<noteq> [] \<and> file_bytes (current f) + int (Suc (length line)) \<ge> max_bytes)"

definition rollover :: "int \<Rightarrow> rfile \<Rightarrow> rfile" where
  "rollover backup_count f =
     (if backup_count > 0
      then \<lparr>current = [], backups = take (nat backup_count) (current f # backups f)\<rparr> else f)"

definition append_line :: "int \<Rightarrow> int \<Rightarrow> string \<Rightarrow> rfile \<Rightarrow> rfile" where
  "append_line max_bytes backup_count line f =
     (let f' = (if should_rollover max_bytes line f then rollover backup_count f else f)
      in f'\<lparr>current := current f' @ [line]\<rparr>)"

section \<open>The fallback log\<close>

record fallback =
  handlers :: "(path, int \<times> int) dict"
  files :: "(path, rfile) dict"
  warnings :: "string list"
  fallback_events :: nat

definition new_fallback :: fallback where
  "new_fallback = \<lparr>handlers = [], files = [], warnings = [], fallback_events = 0\<rparr>"

text \<open>\<open>io\<close>: the \<open>OSError\<close> that creating the directory or opening the file raises, if any.\<close>

definition handler_for :: "settings \<Rightarrow> string option \<Rightarrow> string \<Rightarrow> fallback \<Rightarrow> path option \<times> fallback" where
  "handler_for cfg io name fb =
     (if fallback_log_dir cfg = [] then (None, fb)
      else let path = (fallback_log_dir cfg, name)
           in case map_of (handlers fb) path of
                Some h \<Rightarrow> (Some path, fb)
              | None \<Rightarrow>
                  (case io of
                     Some exc \<Rightarrow> (None, fb\<lparr>warnings := warnings fb @ [exc]\<rparr>)
                   | None \<Rightarrow>
                       (Some path,
                        fb\<lparr>handlers := AList.update path
                                (fallback_log_max_bytes cfg, fallback_log_backup_count cfg) (handlers fb)\<rparr>)))"

definition file_at :: "path \<Rightarrow> fallback \<Rightarrow> rfile" where
  "file_at path fb = (case map_of (files fb) path of None \<Rightarrow> empty_file | Some f \<Rightarrow> f)"

definition write_line :: "path \<Rightarrow> string \<Rightarrow> fallback \<Rightarrow> fallback" where
  "write_line path line fb =
     (case map_of (handlers fb) path of
        None \<Rightarrow> fb
      | Some (mb, bc) \<Rightarrow>
          fb\<lparr>files := AList.update path (append_line mb bc line (file_at path fb)) (files fb)\<rparr>)"

definition write_record :: "settings \<Rightarrow> string option \<Rightarrow> string \<Rightarrow> json_record \<Rightarrow> fallback \<Rightarrow> fallback" where
  "write_record cfg io name rec fb =
     (case handler_for cfg io name fb of
        (None, fb') \<Rightarrow> fb'
      | (Some path, fb') \<Rightarrow> write_line path (json_dumps (PDict rec)) fb')"

definition timed :: "string \<Rightarrow> json_record \<Rightarrow> json_record" where
  "timed now rec = merge_dict [(''time'', PStr now)] rec"

definition write_event :: "settings \<Rightarrow> string option \<Rightarrow> string \<Rightarrow> json_record \<Rightarrow> fallback \<Rightarrow> fallback" where
  "write_event cfg io now rec fb =
     (let fb' = write_record cfg io EVENTS_FILE (timed now rec) fb
      in fb'\<lparr>fallback_events := Suc (fallback_events fb')\<rparr>)"

definition write_health :: "settings \<Rightarrow> string option \<Rightarrow> string \<Rightarrow> json_record \<Rightarrow> fallback \<Rightarrow> fallback" where
  "write_health cfg io now rec fb = write_record cfg io HEALTH_FILE (timed now rec) fb"

definition fallback_close :: "fallback \<Rightarrow> fallback" where
  "fallback_close fb = fb\<lparr>handlers := []\<rparr>"

section \<open>The monitor\<close>

record component_health =
  component :: string
  healthy :: bool
  detail :: string
  checked_at :: string

record monitor =
  components :: "(string, component_health) dict"
  component_up :: "(string, nat) dict"
  fallback_gauge :: nat

definition new_monitor :: monitor where
  "new_monitor = \<lparr>components = [], component_up = [], fallback_gauge = 0\<rparr>"

definition fallback_active :: "settings \<Rightarrow> monitor \<Rightarrow> bool" where
  "fallback_active cfg mon =
     list_ex (\<lambda>name. case map_of (components mon) name of None \<Rightarrow> False | Some h \<Rightarrow> \<not> healthy h)
       (fallback_trigger_components cfg)"

definition probe :: "string \<Rightarrow> string + int \<Rightarrow> string \<Rightarrow> component_health" where
  "probe name outcome now =
     (case outcome of
        Inl exc \<Rightarrow> \<lparr>component = name, healthy = False, detail = exc, checked_at = now\<rparr>
      | Inr sc \<Rightarrow> \<lparr>component = name, healthy = (200 \<le> sc \<and> sc < 300),
                    detail = ''HTTP '' @ py_int_str sc, checked_at = now\<rparr>)"

type_synonym transition = "component_health \<times> component_health option"

text \<open>One turn of the first loop of \<open>check_once\<close>: store the result, set the gauge, note a transition.\<close>

definition observe :: "component_health \<Rightarrow> monitor \<times> transition list \<Rightarrow> monitor \<times> transition list" where
  "observe result st =
     (let (mon, ts) = st;
          previous = map_of (components mon) (component result);
          mon' = mon\<lparr>components := AList.update (component result) result (components mon),
                     component_up := AList.update (component result) (if healthy result then 1 else 0)
                                       (component_up mon)\<rparr>;
          flip = (case previous of Some p \<Rightarrow> healthy p \<noteq> healthy result | None \<Rightarrow> \<not> healthy result)
      in (mon', if flip then ts @ [(result, previous)] else ts))"

definition health_record :: "settings \<Rightarrow> monitor \<Rightarrow> transition \<Rightarrow> json_record" where
  "health_record cfg mon t =
     (let (result, previous) = t
      in [(''component'', PStr (component result)),
          (''state'', PStr (if healthy result then ''recovered'' else ''unhealthy'')),
          (''healthy'', PBool (healthy result)),
          (''detail'', PStr (detail result)),
          (''previous_detail'', case previous of None \<Rightarrow> PNone | Some p \<Rightarrow> PStr (detail p)),
          (''fallback_active'', PBool (fallback_active cfg mon))])"

text \<open>
  What one check gets from outside: the answer of each URL, the clock text of each probe and of each
  transition record, and what opening the log for the record of a component raises, if anything.
\<close>

record check_env =
  get_url :: "string \<Rightarrow> string + int"
  probe_time :: "string \<Rightarrow> string"
  write_time :: "string \<Rightarrow> string"
  log_io :: "string \<Rightarrow> string option"

definition probe_all :: "settings \<Rightarrow> check_env \<Rightarrow> component_health list" where
  "probe_all cfg env = map (\<lambda>(name, url). probe name (get_url env url) (probe_time env name)) (stack_targets cfg)"

definition record_transition ::
  "settings \<Rightarrow> check_env \<Rightarrow> monitor \<Rightarrow> transition \<Rightarrow> fallback \<Rightarrow> fallback" where
  "record_transition cfg env mon t fb =
     write_health cfg (log_io env (component (fst t))) (write_time env (component (fst t))) (health_record cfg mon t) fb"

definition observe_all :: "component_health list \<Rightarrow> monitor \<Rightarrow> monitor \<times> transition list" where
  "observe_all results mon = fold observe results (mon, [])"

definition set_gauge :: "settings \<Rightarrow> monitor \<Rightarrow> monitor" where
  "set_gauge cfg mon = mon\<lparr>fallback_gauge := (if fallback_active cfg mon then 1 else 0)\<rparr>"

definition check_once :: "settings \<Rightarrow> check_env \<Rightarrow> monitor \<times> fallback \<Rightarrow> monitor \<times> fallback" where
  "check_once cfg env st =
     (let (mon, fb) = st;
          (mon', ts) = observe_all (probe_all cfg env) mon;
          fb' = fold (record_transition cfg env mon') ts fb
      in (set_gauge cfg mon', fb'))"

text \<open>
  The monitoring task: each turn either runs a check or, when the check raises before it has its
  results, logs a warning; the sleep between turns has no effect on the state.
\<close>

datatype cycle = Check check_env | Check_failed string

fun monitor_run :: "settings \<Rightarrow> cycle list \<Rightarrow> monitor \<times> fallback \<Rightarrow> monitor \<times> fallback" where
  "monitor_run cfg [] st = st"
| "monitor_run cfg (Check env # cs) st = monitor_run cfg cs (check_once cfg env st)"
| "monitor_run cfg (Check_failed exc # cs) st = monitor_run cfg cs st"

record stack_snapshot =
  snap_status :: string
  snap_fallback_active :: bool
  snap_fallback_log_dir :: "string option"
  snap_components :: "component_health list"

definition snapshot :: "settings \<Rightarrow> monitor \<Rightarrow> stack_snapshot" where
  "snapshot cfg mon =
     (let cs = sort_key component (map snd (components mon))
      in \<lparr>snap_status = (if cs = [] then ''unknown''
                         else if list_all healthy cs then ''ok'' else ''degraded''),
          snap_fallback_active = fallback_active cfg mon,
          snap_fallback_log_dir = (if fallback_log_dir cfg = [] then None else Some (fallback_log_dir cfg)),
          snap_components = cs\<rparr>)"

section \<open>The contract of a log file\<close>

text \<open>
  A line sink may forget its oldest lines but never reorders, alters or loses a newer one; a durable
  sink forgets nothing.
\<close>

locale line_sink =
  fixes put_line :: "string \<Rightarrow> 's \<Rightarrow> 's"
    and history :: "'s \<Rightarrow> string list"
  assumes write_suffix: "suffix (history (put_line l s)) (history s @ [l])"
    and write_last: "last (history (put_line l s)) = l"
begin

lemma fold_suffix: "suffix (history (fold put_line ls s)) (history s @ ls)"
proof (induction ls arbitrary: s)
  case (Cons l ls)
  have "suffix (history (fold put_line ls (put_line l s))) (history (put_line l s) @ ls)" by (rule Cons.IH)
  moreover have "suffix (history (put_line l s) @ ls) ((history s @ [l]) @ ls)"
    using write_suffix [of l s] by (auto simp: suffix_def)
  ultimately show ?case by (auto dest: suffix_order.trans)
qed simp

end

locale durable_sink = line_sink +
  assumes write_keeps: "history (put_line l s) = history s @ [l]"
begin

lemma fold_keeps: "history (fold put_line ls s) = history s @ ls"
  by (induction ls arbitrary: s) (simp_all add: write_keeps)

end

definition rfile_lines :: "rfile \<Rightarrow> string list" where
  "rfile_lines f = concat (rev (backups f)) @ current f"

lemma rfile_lines_empty [simp]: "rfile_lines empty_file = []"
  by (simp add: rfile_lines_def empty_file_def)

lemma suffix_rev_take: "suffix (concat (rev (take n bs))) (concat (rev bs))"
proof -
  have "rev bs = rev (drop n bs) @ rev (take n bs)"
    by (metis append_take_drop_id rev_append)
  then have "concat (rev bs) = concat (rev (drop n bs)) @ concat (rev (take n bs))"
    by (metis concat_append)
  then show ?thesis unfolding suffix_def by blast
qed

lemma rollover_suffix: "suffix (rfile_lines (rollover bc f)) (rfile_lines f)"
  using suffix_rev_take [of "nat bc" "current f # backups f"]
  by (simp add: rollover_def rfile_lines_def)

lemma append_line_lines:
  "rfile_lines (append_line mb bc l f) =
     rfile_lines (if should_rollover mb l f then rollover bc f else f) @ [l]"
  by (simp add: append_line_def rfile_lines_def Let_def)

interpretation rotated: line_sink "append_line mb bc" rfile_lines for mb bc
  using rollover_suffix
  by unfold_locales (auto simp: append_line_lines suffix_def)

interpretation unrotated: durable_sink "append_line 0 bc" rfile_lines for bc
  by unfold_locales (simp add: append_line_lines should_rollover_def)

lemma append_line_nonpos: "mb \<le> 0 \<Longrightarrow> append_line mb bc = append_line 0 bc"
  by (auto simp: append_line_def should_rollover_def fun_eq_iff)

section \<open>What one check does\<close>

definition health_of :: "string \<Rightarrow> monitor \<Rightarrow> bool" where
  "health_of c mon = (case map_of (components mon) c of None \<Rightarrow> True | Some h \<Rightarrow> healthy h)"

definition flags :: "string \<Rightarrow> transition list \<Rightarrow> bool list" where
  "flags c ts = map (\<lambda>t. healthy (fst t)) (filter (\<lambda>t. component (fst t) = c) ts)"

lemma flags_append [simp]: "flags c (ts @ us) = flags c ts @ flags c us"
  by (simp add: flags_def)

lemma flags_Nil [simp]: "flags c [] = []"
  by (simp add: flags_def)

lemma observe_eq:
  "observe r (mon, ts) =
     (mon\<lparr>components := AList.update (component r) r (components mon),
          component_up := AList.update (component r) (if healthy r then 1 else 0) (component_up mon)\<rparr>,
      ts @ (if healthy r \<noteq> health_of (component r) mon
            then [(r, map_of (components mon) (component r))] else []))"
  by (auto simp: observe_def Let_def health_of_def split: option.splits)

text \<open>A status that alternates strictly from \<open>e\<close> and ends in \<open>e'\<close>.\<close>

definition alternates :: "bool \<Rightarrow> bool list \<Rightarrow> bool \<Rightarrow> bool" where
  "alternates e bs e' \<longleftrightarrow> successively (\<noteq>) (e # bs) \<and> last (e # bs) = e'"

lemma alternates_Nil [simp]: "alternates e [] e' \<longleftrightarrow> e' = e"
  by (auto simp: alternates_def)

lemma alternates_append: "alternates e bs m \<Longrightarrow> alternates m cs e' \<Longrightarrow> alternates e (bs @ cs) e'"
  unfolding alternates_def
  by (induction bs arbitrary: e) (auto split: if_splits)

lemma observe_alternates:
  "\<exists>new. snd (observe r (mon, ts)) = ts @ new
     \<and> alternates (health_of c mon) (flags c new) (health_of c (fst (observe r (mon, ts))))"
  by (auto simp: observe_eq alternates_def flags_def health_of_def dict_simps)

lemma fold_observe_alternates:
  "\<exists>new. snd (fold observe rs (mon, ts)) = ts @ new
     \<and> alternates (health_of c mon) (flags c new) (health_of c (fst (fold observe rs (mon, ts))))"
proof (induction rs arbitrary: mon ts)
  case (Cons r rs)
  obtain mon1 ts1 where o: "observe r (mon, ts) = (mon1, ts1)" by force
  obtain n1 where n1: "ts1 = ts @ n1" "alternates (health_of c mon) (flags c n1) (health_of c mon1)"
    using observe_alternates [of r mon ts c] by (auto simp: o)
  obtain n2 where n2: "snd (fold observe rs (mon1, ts1)) = ts1 @ n2"
      "alternates (health_of c mon1) (flags c n2) (health_of c (fst (fold observe rs (mon1, ts1))))"
    using Cons.IH by blast
  show ?case
    using n1 n2 alternates_append by (intro exI [of _ "n1 @ n2"]) (auto simp: o)
qed simp

lemma observe_all_alternates:
  "alternates (health_of c mon) (flags c (snd (observe_all rs mon))) (health_of c (fst (observe_all rs mon)))"
  using fold_observe_alternates [of rs mon "[]" c] by (auto simp: observe_all_def)

text \<open>The records of the logs are JSON objects that begin with their time and read back.\<close>

lemma dumpable_timed: "list_all (\<lambda>(k, v). dumpable v) rec \<Longrightarrow> dumpable (PDict (timed now rec))"
  unfolding timed_def by (rule dumpable_merge) (simp_all add: wf_dict_def)

lemma timed_eq: "''time'' \<notin> set (keys rec) \<Longrightarrow> distinct (keys rec) \<Longrightarrow> timed now rec = (''time'', PStr now) # rec"
  by (simp add: timed_def merge_dict_disjoint)

lemma health_record_dumpable: "list_all (\<lambda>(k, v). dumpable v) (health_record cfg mon t)"
  by (auto simp: health_record_def split: prod.splits option.splits)

lemma health_record_timed: "timed now (health_record cfg mon t) = (''time'', PStr now) # health_record cfg mon t"
  by (rule timed_eq) (simp_all add: health_record_def case_prod_beta)

text \<open>The transitions of a whole run, and the lines it writes to the health file.\<close>

fun monitor_trace :: "settings \<Rightarrow> cycle list \<Rightarrow> monitor \<Rightarrow> monitor \<times> transition list" where
  "monitor_trace cfg [] mon = (mon, [])"
| "monitor_trace cfg (Check env # cs) mon =
     (let (mon', ts) = observe_all (probe_all cfg env) mon;
          (mon'', ts') = monitor_trace cfg cs (set_gauge cfg mon')
      in (mon'', ts @ ts'))"
| "monitor_trace cfg (Check_failed exc # cs) mon = monitor_trace cfg cs mon"

definition health_line :: "settings \<Rightarrow> check_env \<Rightarrow> monitor \<Rightarrow> transition \<Rightarrow> string" where
  "health_line cfg env mon t =
     json_dumps (PDict (timed (write_time env (component (fst t))) (health_record cfg mon t)))"

fun health_lines :: "settings \<Rightarrow> cycle list \<Rightarrow> monitor \<Rightarrow> string list" where
  "health_lines cfg [] mon = []"
| "health_lines cfg (Check env # cs) mon =
     (let (mon', ts) = observe_all (probe_all cfg env) mon
      in map (health_line cfg env mon') ts
         @ health_lines cfg cs (set_gauge cfg mon'))"
| "health_lines cfg (Check_failed exc # cs) mon = health_lines cfg cs mon"

text \<open>What a line of the health file says of a component, to whoever reads it back: its \<open>healthy\<close> flag.\<close>

definition line_health :: "(string \<Rightarrow> string) \<Rightarrow> string \<Rightarrow> string \<Rightarrow> bool option" where
  "line_health ft c line =
     (case json_loads ft line of
        Some (Inr (PDict d)) \<Rightarrow>
          (if map_of d ''component'' = Some (PStr c)
           then (case map_of d ''healthy'' of Some (PBool b) \<Rightarrow> Some b | _ \<Rightarrow> None) else None)
      | _ \<Rightarrow> None)"

definition recorded_flags :: "(string \<Rightarrow> string) \<Rightarrow> string \<Rightarrow> rfile \<Rightarrow> bool list" where
  "recorded_flags ft c f = List.map_filter (line_health ft c) (rfile_lines f)"

lemma health_line_flag: "line_health ft c (health_line cfg env mon t) = (if component (fst t) = c then Some (healthy (fst t)) else None)"
proof -
  have "json_line (timed (write_time env (component (fst t))) (health_record cfg mon t)) (health_line cfg env mon t)"
    unfolding json_line_def health_line_def using dumpable_timed [OF health_record_dumpable] by blast
  from json_line_loads [OF this, of ft]
  have "json_loads ft (health_line cfg env mon t) = Some (Inr (PDict
      ((''time'', PStr (write_time env (component (fst t)))) # health_record cfg mon t)))"
    by (simp only: health_record_timed)
  then show ?thesis by (auto simp: line_health_def health_record_def case_prod_beta)
qed

lemma map_filter_health_lines: "List.map_filter (line_health ft c) (map (health_line cfg env mon) ts) = flags c ts"
  by (induction ts) (auto simp: health_line_flag flags_def List.map_filter_def)

lemma health_lines_flags:
  "List.map_filter (line_health ft c) (health_lines cfg cs mon) = flags c (snd (monitor_trace cfg cs mon))"
proof (induction cfg cs mon rule: health_lines.induct)
  case (2 cfg env cs mon)
  obtain mon' ts where o: "observe_all (probe_all cfg env) mon = (mon', ts)" by force
  have app: "List.map_filter g (xs @ ys) = List.map_filter g xs @ List.map_filter g ys" for g :: "string \<Rightarrow> bool option" and xs ys
    by (simp add: List.map_filter_def)
  show ?case using "2" o by (simp add: app map_filter_health_lines case_prod_beta Let_def)
qed simp_all

lemma suffix_map_filter: "suffix xs ys \<Longrightarrow> suffix (List.map_filter g xs) (List.map_filter g ys)"
  by (auto simp: suffix_def List.map_filter_def)

lemma successively_suffix: "suffix xs ys \<Longrightarrow> successively P ys \<Longrightarrow> successively P xs"
  by (auto simp: suffix_def successively_append_iff)

lemma components_set_gauge [simp, frame_simps]: "components (set_gauge cfg mon) = components mon"
  by (simp add: set_gauge_def)

lemma health_of_gauge [simp, frame_simps]: "health_of c (set_gauge cfg mon) = health_of c mon"
  by (simp add: health_of_def)

lemma fallback_active_set_gauge [simp, frame_simps]:
  "fallback_active cfg (set_gauge cfg' mon) = fallback_active cfg mon"
  by (simp add: fallback_active_def)

lemma monitor_trace_run: "fst (monitor_trace cfg cs mon) = fst (monitor_run cfg cs (mon, fb))"
proof (induction cfg cs mon arbitrary: fb rule: monitor_trace.induct)
  case (2 cfg env cs mon)
  obtain mon' ts where "observe_all (probe_all cfg env) mon = (mon', ts)" by force
  then show ?case using "2" by (simp add: check_once_def Let_def case_prod_beta)
qed simp_all

lemma monitor_trace_alternates:
  "alternates (health_of c mon) (flags c (snd (monitor_trace cfg cs mon)))
     (health_of c (fst (monitor_trace cfg cs mon)))"
proof (induction cfg cs mon rule: monitor_trace.induct)
  case (2 cfg env cs mon)
  obtain mon' ts where o: "observe_all (probe_all cfg env) mon = (mon', ts)" by force
  let ?m = "set_gauge cfg mon'"
  have "alternates (health_of c mon) (flags c ts) (health_of c ?m)"
    using observe_all_alternates [of c mon "probe_all cfg env"] by (simp add: o)
  moreover have "alternates (health_of c ?m) (flags c (snd (monitor_trace cfg cs ?m)))
      (health_of c (fst (monitor_trace cfg cs ?m)))"
    using "2" o by simp
  ultimately show ?case
    using alternates_append by (auto simp: o Let_def case_prod_beta)
qed simp_all

section \<open>What reaches the files\<close>

text \<open>Every open handler rotates by the configured bounds.\<close>

definition handlers_ok :: "settings \<Rightarrow> fallback \<Rightarrow> bool" where
  "handlers_ok cfg fb \<longleftrightarrow>
     (\<forall>p b. map_of (handlers fb) p = Some b \<longrightarrow> b = (fallback_log_max_bytes cfg, fallback_log_backup_count cfg))"

lemma handlers_ok_new [simp]: "handlers_ok cfg new_fallback"
  by (simp add: handlers_ok_def new_fallback_def)

lemma handlers_ok_write: "handlers_ok cfg fb \<Longrightarrow> handlers_ok cfg (write_record cfg io name rec fb)"
  by (auto simp: handlers_ok_def write_record_def handler_for_def write_line_def Let_def dict_simps
      split: option.splits prod.splits if_splits)

lemma file_at_update [dict_simps]:
  "file_at p (fb\<lparr>files := AList.update q f fs\<rparr>) = (if p = q then f else file_at p (fb\<lparr>files := fs\<rparr>))"
  by (simp add: file_at_def dict_simps)

lemma file_at_frame [simp, frame_simps]:
  "file_at p (fb\<lparr>handlers := h\<rparr>) = file_at p fb" "file_at p (fb\<lparr>warnings := w\<rparr>) = file_at p fb"
  "file_at p (fb\<lparr>fallback_events := n\<rparr>) = file_at p fb"
  by (simp_all add: file_at_def)

lemma write_record_file:
  assumes "handlers_ok cfg fb" "fallback_log_dir cfg \<noteq> []"
  shows "file_at p (write_record cfg None name rec fb) =
    (if p = (fallback_log_dir cfg, name)
     then append_line (fallback_log_max_bytes cfg) (fallback_log_backup_count cfg)
            (json_dumps (PDict rec)) (file_at p fb)
     else file_at p fb)"
  using assms
  by (auto simp: write_record_def handler_for_def write_line_def handlers_ok_def Let_def dict_simps
      file_at_def [of _ fb] file_at_def split: option.splits)

definition health_path_of :: "settings \<Rightarrow> path" where
  "health_path_of cfg = (fallback_log_dir cfg, HEALTH_FILE)"

lemma record_transitions_file:
  assumes "handlers_ok cfg fb" "fallback_log_dir cfg \<noteq> []" "\<And>c. log_io env c = None"
  shows "handlers_ok cfg (fold (record_transition cfg env mon) ts fb)
    \<and> file_at (health_path_of cfg) (fold (record_transition cfg env mon) ts fb)
      = fold (append_line (fallback_log_max_bytes cfg) (fallback_log_backup_count cfg))
          (map (health_line cfg env mon) ts) (file_at (health_path_of cfg) fb)"
  using assms(1)
proof (induction ts arbitrary: fb)
  case (Cons t ts)
  have "handlers_ok cfg (record_transition cfg env mon t fb)"
    using Cons.prems by (simp add: record_transition_def write_health_def handlers_ok_write)
  moreover have "file_at (health_path_of cfg) (record_transition cfg env mon t fb)
      = append_line (fallback_log_max_bytes cfg) (fallback_log_backup_count cfg)
          (health_line cfg env mon t) (file_at (health_path_of cfg) fb)"
    using Cons.prems assms(2,3)
    by (simp add: record_transition_def write_health_def write_record_file health_path_of_def health_line_def)
  ultimately show ?case using Cons.IH by simp
qed simp

definition io_fine :: "cycle list \<Rightarrow> bool" where
  "io_fine cs = list_all (\<lambda>c. case c of Check env \<Rightarrow> (\<forall>c. log_io env c = None) | Check_failed exc \<Rightarrow> True) cs"

lemma monitor_run_health_file:
  assumes "handlers_ok cfg fb" "fallback_log_dir cfg \<noteq> []" "io_fine cs"
  shows "file_at (health_path_of cfg) (snd (monitor_run cfg cs (mon, fb)))
      = fold (append_line (fallback_log_max_bytes cfg) (fallback_log_backup_count cfg))
          (health_lines cfg cs mon) (file_at (health_path_of cfg) fb)"
  using assms
proof (induction cfg cs mon arbitrary: fb rule: health_lines.induct)
  case (2 cfg env cs mon)
  obtain mon' ts where o: "observe_all (probe_all cfg env) mon = (mon', ts)" by force
  have "\<And>c. log_io env c = None" "io_fine cs" using "2.prems"(3) by (simp_all add: io_fine_def)
  then show ?case
    using "2.IH" [OF o [symmetric] refl] "2.prems"(1,2)
      record_transitions_file [OF "2.prems"(1,2), of env mon' ts]
    by (simp add: check_once_def o)
qed (simp_all add: io_fine_def)

lemma fold_observe_components:
  "map_of (components (fst (fold observe rs (mon, ts)))) c =
     (case map_of (rev (map (\<lambda>r. (component r, r)) rs)) c of
        Some r \<Rightarrow> Some r | None \<Rightarrow> map_of (components mon) c)"
proof (induction rs arbitrary: mon ts)
  case (Cons r rs)
  show ?case
    by (subst fold_simps, subst observe_eq, subst Cons.IH)
       (auto simp: dict_simps map_add_def split: option.splits)
qed simp

lemma component_probe [simp]: "component (probe name outcome now) = name"
  by (auto simp: probe_def split: sum.splits)

lemma probe_all_lookup:
  assumes "wf_dict (stack_targets cfg)"
  shows "map_of (rev (map (\<lambda>r. (component r, r)) (probe_all cfg env))) c =
    map_option (\<lambda>url. probe c (get_url env url) (probe_time env c)) (map_of (stack_targets cfg) c)"
proof -
  let ?kv = "map (\<lambda>r. (component r, r)) (probe_all cfg env)"
  have "keys ?kv = keys (stack_targets cfg)"
    by (auto simp: probe_all_def case_prod_beta)
  then have "distinct (keys ?kv)" using assms unfolding wf_dict_def by (rule ssubst)
  then have "map_of (rev ?kv) = map_of ?kv"
    by (rule map_of_rev_distinct)
  moreover have "map_of ?kv c = map_option (\<lambda>url. probe c (get_url env url) (probe_time env c)) (map_of (stack_targets cfg) c)"
    unfolding probe_all_def by (rule list.induct [of _ "stack_targets cfg"]) (auto simp: case_prod_beta)
  ultimately show ?thesis by simp
qed

lemma check_once_components:
  assumes "wf_dict (stack_targets cfg)"
  shows "map_of (components (fst (check_once cfg env (mon, fb)))) c =
    (case map_of (stack_targets cfg) c of
       Some url \<Rightarrow> Some (probe c (get_url env url) (probe_time env c))
     | None \<Rightarrow> map_of (components mon) c)"
proof -
  have "components (fst (check_once cfg env (mon, fb)))
      = components (fst (fold observe (probe_all cfg env) (mon, [])))"
    by (simp add: check_once_def observe_all_def case_prod_beta Let_def)
  then show ?thesis
    by (simp add: fold_observe_components probe_all_lookup [OF assms] split: option.splits)
qed

text \<open>The dictionary of components stays well formed, each entry under its own name.\<close>

definition components_ok :: "monitor \<Rightarrow> bool" where
  "components_ok mon \<longleftrightarrow> wf_dict (components mon) \<and> list_all (\<lambda>(c, h). component h = c) (components mon)"

lemma components_ok_update:
  assumes "components_ok mon"
  shows "components_ok (mon\<lparr>components := AList.update (component r) r (components mon), component_up := u\<rparr>)"
proof -
  have "list_all (\<lambda>(c, h). component h = c) (AList.update (component r) r d)"
    if "list_all (\<lambda>(c, h). component h = c) d" for d
    using that by (induction d) auto
  then show ?thesis using assms by (auto simp: components_ok_def)
qed

lemma fold_observe_ok: "components_ok (fst st) \<Longrightarrow> components_ok (fst (fold observe rs st))"
proof (induction rs arbitrary: st)
  case (Cons r rs)
  obtain mon ts where st: "st = (mon, ts)" by force
  show ?case
    using Cons components_ok_update [of mon, where r = r] by (simp add: st observe_eq)
qed simp

lemma components_ok_gauge [simp]: "components_ok (set_gauge cfg mon) = components_ok mon"
  by (simp add: components_ok_def)

lemma check_once_ok: "components_ok mon \<Longrightarrow> components_ok (fst (check_once cfg env (mon, fb)))"
  using fold_observe_ok [of "(mon, [])" "probe_all cfg env"]
  by (simp add: check_once_def observe_all_def case_prod_beta Let_def)

lemma components_ok_new [simp]: "components_ok new_monitor"
  by (simp add: components_ok_def new_monitor_def)

lemma check_once_wf: "components_ok mon \<Longrightarrow> wf_dict (components (fst (check_once cfg env (mon, fb))))"
  using check_once_ok components_ok_def by blast

lemma file_bytes_append [simp]: "file_bytes (ls @ [l]) = file_bytes ls + int (Suc (length l))"
  by (simp add: file_bytes_def)

definition rotation_ok :: "int \<Rightarrow> int \<Rightarrow> int \<Rightarrow> rfile \<Rightarrow> bool" where
  "rotation_ok mb bc B f \<longleftrightarrow> length (backups f) \<le> nat bc
     \<and> list_all (\<lambda>ls. file_bytes ls \<le> max mb B) (current f # backups f)"

lemma append_line_rotation_ok:
  assumes "rotation_ok mb bc B f" "0 < mb" "0 < bc" "int (Suc (length l)) \<le> B"
  shows "rotation_ok mb bc B (append_line mb bc l f)"
proof (cases "should_rollover mb l f")
  case True
  have "list_all (\<lambda>ls. file_bytes ls \<le> max mb B) (take (nat bc) (current f # backups f))"
    using assms(1) set_take_subset [of "nat bc" "current f # backups f"]
    unfolding rotation_ok_def list_all_iff by blast
  then show ?thesis
    using True assms by (simp add: append_line_def rollover_def rotation_ok_def file_bytes_def)
next
  case False
  then have "file_bytes (current f @ [l]) \<le> max mb B"
    using assms(2,4) by (cases "current f = []") (auto simp: should_rollover_def file_bytes_def)
  then show ?thesis
    using False assms(1) by (simp add: append_line_def rotation_ok_def)
qed

definition outage_env :: check_env where
  "outage_env = \<lparr>get_url = (\<lambda>url. if url = ''http://loki:3100/ready'' then Inl ''ConnectError'' else Inr 200),
     probe_time = (\<lambda>name. ''t0''), write_time = (\<lambda>name. ''t1''), log_io = (\<lambda>name. None)\<rparr>"

section \<open>Properties\<close>

text \<open>The health file after a run, as the lines that were written to it.\<close>

lemma health_file_lines:
  assumes "fallback_log_dir cfg \<noteq> []" "io_fine cs"
  shows "let f = file_at (health_path_of cfg) (snd (monitor_run cfg cs (new_monitor, new_fallback)))
         in suffix (rfile_lines f) (health_lines cfg cs new_monitor)
            \<and> (fallback_log_max_bytes cfg \<le> 0 \<longrightarrow> rfile_lines f = health_lines cfg cs new_monitor)"
proof -
  let ?f = "file_at (health_path_of cfg) (snd (monitor_run cfg cs (new_monitor, new_fallback)))"
  let ?w = "append_line (fallback_log_max_bytes cfg) (fallback_log_backup_count cfg)"
  have f: "?f = fold ?w (health_lines cfg cs new_monitor) empty_file"
    using monitor_run_health_file [OF handlers_ok_new assms, of new_monitor]
    by (simp add: file_at_def new_fallback_def)
  have "suffix (rfile_lines ?f) (health_lines cfg cs new_monitor)"
    using rotated.fold_suffix [of _ _ "health_lines cfg cs new_monitor" empty_file] by (simp add: f)
  moreover have "rfile_lines ?f = health_lines cfg cs new_monitor" if "fallback_log_max_bytes cfg \<le> 0"
    using unrotated.fold_keeps [of _ "health_lines cfg cs new_monitor" empty_file]
    by (simp add: f append_line_nonpos [OF that])
  ultimately show ?thesis by (simp add: Let_def)
qed


definition outage_settings :: settings where
  "outage_settings = default_settings\<lparr>fallback_log_dir := ''/var/log/obs'', fallback_log_max_bytes := 0\<rparr>"

definition recovery_env :: check_env where
  "recovery_env = outage_env\<lparr>get_url := \<lambda>url. Inr 200\<rparr>"

lemma recovery_health: "health_of ''loki'' (fst (monitor_run outage_settings [Check outage_env, Check recovery_env] (new_monitor, new_fallback)))"
  "length (flags ''loki'' (snd (monitor_trace outage_settings [Check outage_env, Check recovery_env] new_monitor))) = 2"
  by code_simp+


text \<open>C33: no health record is lost or reordered.  With a log directory that opens, the health file after
  any run, its backups included, holds the newest of the lines the transitions wrote, in order, and
  all of them when rotation is off.\<close>

theorem health_log_kept:
  assumes "fallback_log_dir cfg \<noteq> []" "io_fine cs"
  shows "let f = file_at (health_path_of cfg) (snd (monitor_run cfg cs (new_monitor, new_fallback)))
         in suffix (rfile_lines f) (health_lines cfg cs new_monitor)
            \<and> (fallback_log_max_bytes cfg \<le> 0 \<longrightarrow> rfile_lines f = health_lines cfg cs new_monitor)"
  using assms by (rule health_file_lines)

theorem health_log_kept_witness:
  "suffix (rfile_lines (file_at (health_path_of (default_settings\<lparr>fallback_log_dir := ''/var/log/obs''\<rparr>))
       (snd (monitor_run (default_settings\<lparr>fallback_log_dir := ''/var/log/obs''\<rparr>)
          [Check outage_env, Check_failed ''RuntimeError'', Check outage_env] (new_monitor, new_fallback)))))
     (health_lines (default_settings\<lparr>fallback_log_dir := ''/var/log/obs''\<rparr>)
        [Check outage_env, Check_failed ''RuntimeError'', Check outage_env] new_monitor)"
  using health_log_kept [of "default_settings\<lparr>fallback_log_dir := ''/var/log/obs''\<rparr>"
      "[Check outage_env, Check_failed ''RuntimeError'', Check outage_env]"]
  by (simp add: Let_def io_fine_def outage_env_def)



text \<open>\<open>fallback_active\<close> after a check says exactly whether a trigger component is down: one that is
  monitored and did not just answer 2xx, or one no longer monitored whose last known state is
  unhealthy.  The gauge shows the same.\<close>

theorem fallback_active_after_check:
  assumes "wf_dict (stack_targets cfg)"
  shows "let mon' = fst (check_once cfg env (mon, fb))
         in (fallback_active cfg mon' \<longleftrightarrow>
              (\<exists>c \<in> set (fallback_trigger_components cfg).
                 case map_of (stack_targets cfg) c of
                   Some url \<Rightarrow> (case get_url env url of Inl exc \<Rightarrow> True | Inr sc \<Rightarrow> sc < 200 \<or> 300 \<le> sc)
                 | None \<Rightarrow> \<not> health_of c mon))
            \<and> fallback_gauge mon' = (if fallback_active cfg mon' then 1 else 0)"
proof -
  let ?mon' = "fst (check_once cfg env (mon, fb))"
  have gauge: "fallback_gauge ?mon' = (if fallback_active cfg ?mon' then 1 else 0)"
    by (simp add: check_once_def Let_def case_prod_beta) (simp add: set_gauge_def)
  have "(case map_of (components ?mon') c of None \<Rightarrow> False | Some h \<Rightarrow> \<not> healthy h) \<longleftrightarrow>
      (case map_of (stack_targets cfg) c of
         Some url \<Rightarrow> (case get_url env url of Inl exc \<Rightarrow> True | Inr sc \<Rightarrow> sc < 200 \<or> 300 \<le> sc)
       | None \<Rightarrow> \<not> health_of c mon)" for c
    by (auto simp: check_once_components [OF assms] probe_def health_of_def split: option.splits sum.splits)
  then have "fallback_active cfg ?mon' \<longleftrightarrow>
      (\<exists>c \<in> set (fallback_trigger_components cfg).
         case map_of (stack_targets cfg) c of
           Some url \<Rightarrow> (case get_url env url of Inl exc \<Rightarrow> True | Inr sc \<Rightarrow> sc < 200 \<or> 300 \<le> sc)
         | None \<Rightarrow> \<not> health_of c mon)"
    by (simp add: fallback_active_def list_ex_iff)
  with gauge show ?thesis by (simp add: Let_def)
qed

theorem fallback_active_after_check_witness:
  "fallback_active default_settings (fst (check_once default_settings outage_env (new_monitor, new_fallback)))"
proof -
  have "wf_dict (stack_targets default_settings)" by (simp add: default_settings_def wf_dict_def)
  from fallback_active_after_check [OF this, of outage_env new_monitor new_fallback]
  show ?thesis by (simp add: Let_def default_settings_def outage_env_def)
qed

text \<open>C39: an unusable log directory never fails a write, but it warns on every one.  While the directory
  cannot be opened, \<open>n\<close> events leave every file as it was, log \<open>n\<close> warnings (the design says one per
  path), and still count \<open>n\<close> events as written to the local log.\<close>

theorem unusable_directory:
  assumes "fallback_log_dir cfg \<noteq> []" "map_of (handlers fb) (fallback_log_dir cfg, EVENTS_FILE) = None"
  shows "let fb' = fold (\<lambda>(now, rec). write_event cfg (Some exc) now rec) evs fb
         in files fb' = files fb \<and> warnings fb' = warnings fb @ replicate (length evs) exc
            \<and> fallback_events fb' = fallback_events fb + length evs"
  using assms(2)
proof (induction evs arbitrary: fb)
  case (Cons e evs)
  obtain now rec where e: "e = (now, rec)" by force
  have "write_event cfg (Some exc) now rec fb
      = fb\<lparr>warnings := warnings fb @ [exc], fallback_events := Suc (fallback_events fb)\<rparr>"
    using assms(1) Cons.prems by (simp add: write_event_def write_record_def handler_for_def Let_def)
  then show ?case
    using Cons.IH [of "fb\<lparr>warnings := warnings fb @ [exc], fallback_events := Suc (fallback_events fb)\<rparr>"] Cons.prems
    by (simp add: e Let_def)
qed simp

theorem unusable_directory_witness:
  "warnings (fold (\<lambda>(now, rec). write_event (default_settings\<lparr>fallback_log_dir := ''/ro''\<rparr>) (Some ''PermissionError'') now rec)
     [(''t'', []), (''u'', [])] new_fallback) = [''PermissionError'', ''PermissionError'']"
  using unusable_directory [of "default_settings\<lparr>fallback_log_dir := ''/ro''\<rparr>" new_fallback "''PermissionError''" "[(''t'', []), (''u'', [])]"]
  by (simp add: Let_def new_fallback_def numeral_2_eq_2)

text \<open>The stack status.  It is \<open>unknown\<close> exactly before any component was seen, \<open>ok\<close> exactly when all
  seen are healthy, else \<open>degraded\<close>; the components listed are those seen, sorted by name.\<close>

theorem snapshot_status:
  "let s = snapshot cfg mon; seen = map snd (components mon)
   in (snap_status s = ''unknown'' \<longleftrightarrow> seen = [])
      \<and> (snap_status s = ''ok'' \<longleftrightarrow> seen \<noteq> [] \<and> (\<forall>h \<in> set seen. healthy h))
      \<and> (snap_status s = ''degraded'' \<longleftrightarrow> (\<exists>h \<in> set seen. \<not> healthy h))
      \<and> sorted (map component (snap_components s)) \<and> set (snap_components s) = set seen"
proof -
  let ?seen = "map snd (components mon)"
  have "sort_key component ?seen = [] \<longleftrightarrow> ?seen = []"
    by (metis set_empty set_sort)
  moreover have "list_all healthy (sort_key component ?seen) \<longleftrightarrow> (\<forall>h \<in> set ?seen. healthy h)"
    by (simp add: list_all_iff)
  ultimately show ?thesis by (auto simp: snapshot_def Let_def)
qed

end
