(* ===== verification/GwIngest.thy ===== *)
theory GwIngest
  imports GwThrottle GwAuth GwValidate GwStack
begin

text \<open>
  Frontend telemetry ingest (\<open>obs_gateway/ingest.py\<close>): the client address, the deduplication
  signature, and the handler of \<open>POST /api/telemetry/v1/ingest\<close> over the gateway's state.  The SHA-256
  hex digest is the parameter \<open>sha\<close>.
\<close>

section \<open>The client address and the signature\<close>

definition forwarded_for :: "string \<Rightarrow> string list" where
  "forwarded_for header = filter (\<lambda>p. p \<noteq> []) (map py_strip (py_split CHR '','' header))"

definition client_ip :: "settings \<Rightarrow> http_request \<Rightarrow> string" where
  "client_ip cfg request =
     (let peer = (case req_client request of None \<Rightarrow> ''unknown'' | Some host \<Rightarrow> host);
          hops = trusted_proxy_hops cfg
      in if hops \<le> 0 then peer
         else let forwarded = forwarded_for
                    (case map_of (req_headers request) ''x-forwarded-for'' of None \<Rightarrow> [] | Some h \<Rightarrow> h)
              in if forwarded = [] then peer
                 else if int (length forwarded) \<ge> hops
                      then forwarded ! (length forwarded - nat hops) else forwarded ! 0)"

definition none_or :: "string option \<Rightarrow> string" where
  "none_or x = (case x of None \<Rightarrow> ''None'' | Some s \<Rightarrow> s)"

definition who :: "principal \<Rightarrow> string \<Rightarrow> string" where
  "who p ip = (if authenticated p then none_or (company_id p) @ ''|'' @ none_or (user_id p) else ip)"

definition signature_text :: "telemetry_event \<Rightarrow> string \<Rightarrow> principal \<Rightarrow> string \<Rightarrow> string" where
  "signature_text ev body p ip =
     who p ip @ ''|'' @ ev_type ev @ ''|'' @ body @ ''|'' @ (case ev_stack ev of None \<Rightarrow> [] | Some s \<Rightarrow> s)"

definition signature :: "(string \<Rightarrow> string) \<Rightarrow> telemetry_event \<Rightarrow> string \<Rightarrow> principal \<Rightarrow> string \<Rightarrow> string" where
  "signature sha ev body p ip = sha (signature_text ev body p ip)"

section \<open>The handler\<close>

definition event_body :: "telemetry_event \<Rightarrow> string" where
  "event_body ev =
     (if ev_message ev \<noteq> [] then ev_message ev
      else if opt_truthy (ev_error ev) then the (ev_error ev) else ev_type ev)"

definition event_attributes :: "telemetry_event \<Rightarrow> principal \<Rightarrow> (string, string option) dict" where
  "event_attributes ev p =
     merge_dict
       [(''telemetry.type'', Some (ev_type ev)),
        (''level'', Some (ev_level ev)),
        (''app'', ev_app ev),
        (''app.version'', ev_app_version ev),
        (''url'', ev_url ev),
        (''company_id'', company_id p),
        (''user_id'', user_id p),
        (''error'', ev_error ev),
        (''stack'', ev_stack ev)]
       (map (\<lambda>(k, v). (''ctx.'' @ k, Some v)) (ev_context ev))"

definition fallback_record :: "telemetry_event \<Rightarrow> string \<Rightarrow> (string, string option) dict \<Rightarrow> json_record" where
  "fallback_record ev body attributes =
     [(''service'', PStr (if opt_truthy (ev_app ev) then ''frontend/'' @ the (ev_app ev) else ''frontend'')),
      (''level'', PStr (ev_level ev)),
      (''body'', PStr body),
      (''trace_id'', pstr_opt (ev_trace_id ev)),
      (''span_id'', pstr_opt (ev_span_id ev)),
      (''attributes'', PDict (map (\<lambda>(k, v). (k, PStr v)) (drop_none attributes)))]"

text \<open>
  The gateway's state: the module-level tables, the emitter, the monitor, the fallback log, the two
  counters of \<open>obs_ingest_events_total\<close>, and everything handed to the SDK so far.
\<close>

record gateway =
  g_hits :: hits
  g_recent :: recent
  g_emitter :: emitter
  g_monitor :: monitor
  g_fallback :: fallback
  g_accepted :: nat
  g_duplicate :: nat
  g_emitted :: "emit_out list"

text \<open>The clock readings and outside failures one event meets.\<close>

record event_env =
  ee_now :: time
  ee_emit :: emit_env
  ee_time :: string
  ee_io :: "string option"

definition forward_event ::
  "settings \<Rightarrow> event_env \<Rightarrow> principal \<Rightarrow> telemetry_event \<Rightarrow> gateway \<Rightarrow> py_exn option \<times> gateway" where
  "forward_event cfg env p ev g =
     (let body = event_body ev;
          attributes = event_attributes ev p;
          (res, em) = emit cfg (ee_emit env) (ev_app ev) body (ev_level ev) (ev_trace_id ev) (ev_span_id ev)
                        attributes (g_emitter g);
          g1 = g\<lparr>g_emitter := em\<rparr>
      in case res of
           Inl exc \<Rightarrow> (Some exc, g1)
         | Inr out \<Rightarrow>
             (let g2 = g1\<lparr>g_emitted := g_emitted g1 @ [out]\<rparr>;
                  g3 = (if fallback_active cfg (g_monitor g2)
                        then g2\<lparr>g_fallback := write_event cfg (ee_io env) (ee_time env)
                                               (fallback_record ev body attributes) (g_fallback g2)\<rparr>
                        else g2)
              in (None, g3\<lparr>g_accepted := Suc (g_accepted g3)\<rparr>)))"

definition ingest_event ::
  "settings \<Rightarrow> (string \<Rightarrow> string) \<Rightarrow> event_env \<Rightarrow> principal \<Rightarrow> string \<Rightarrow> telemetry_event \<Rightarrow> gateway
   \<Rightarrow> py_exn option \<times> gateway" where
  "ingest_event cfg sha env p ip ev g =
     (let (dup, recent') = is_duplicate (dedupe_window_seconds cfg) (signature sha ev (event_body ev) p ip)
                             (ee_now env) (g_recent g);
          g1 = g\<lparr>g_recent := recent'\<rparr>
      in if dup then (None, g1\<lparr>g_duplicate := Suc (g_duplicate g1)\<rparr>)
         else forward_event cfg env p ev g1)"

text \<open>The loop over the batch; \<open>i\<close> counts the events and selects their environment.\<close>

fun ingest_events ::
  "settings \<Rightarrow> (string \<Rightarrow> string) \<Rightarrow> (nat \<Rightarrow> event_env) \<Rightarrow> principal \<Rightarrow> string \<Rightarrow> nat \<Rightarrow> telemetry_event list
   \<Rightarrow> gateway \<Rightarrow> py_exn option \<times> gateway" where
  "ingest_events cfg sha envs p ip i [] g = (None, g)"
| "ingest_events cfg sha envs p ip i (ev # evs) g =
     (case ingest_event cfg sha (envs i) p ip ev g of
        (Some exc, g') \<Rightarrow> (Some exc, g')
      | (None, g') \<Rightarrow> ingest_events cfg sha envs p ip (Suc i) evs g')"

datatype answer = Status int | Raised py_exn

definition ingest ::
  "settings \<Rightarrow> jwt_lib \<Rightarrow> (string \<Rightarrow> string) \<Rightarrow> time \<Rightarrow> (nat \<Rightarrow> event_env) \<Rightarrow> telemetry_event list
   \<Rightarrow> http_request \<Rightarrow> string option \<Rightarrow> gateway \<Rightarrow> answer \<times> gateway" where
  "ingest cfg lib sha now envs events request authorization g =
     (let ip = client_ip cfg request;
          (limited, hits') = rate_limited (rate_limit_per_min cfg) ip now (g_hits g);
          g1 = g\<lparr>g_hits := hits'\<rparr>
      in if limited then (Status 429, g1)
         else case ingest_events cfg sha envs (principal_from_bearer cfg lib authorization) ip 0 events g1 of
                (Some exc, g2) \<Rightarrow> (Raised exc, g2)
              | (None, g2) \<Rightarrow> (Status 204, g2))"

text \<open>The whole route: validation comes before the handler.\<close>

definition post_ingest ::
  "settings \<Rightarrow> jwt_lib \<Rightarrow> (string \<Rightarrow> string) \<Rightarrow> (telemetry_event \<Rightarrow> nat) \<Rightarrow> time \<Rightarrow> (nat \<Rightarrow> event_env) \<Rightarrow> pyval
   \<Rightarrow> http_request \<Rightarrow> string option \<Rightarrow> gateway \<Rightarrow> answer \<times> gateway" where
  "post_ingest cfg lib sha dump_len now envs body request authorization g =
     (case validate_batch cfg dump_len body of
        Inl e \<Rightarrow> (Status 422, g)
      | Inr events \<Rightarrow> ingest cfg lib sha now envs events request authorization g)"

section \<open>The client address\<close>

lemma forwarded_for_append: "forwarded_for (a @ CHR '','' # b) = forwarded_for a @ forwarded_for b"
  by (simp add: forwarded_for_def py_split_append)

section \<open>The signature\<close>

lemma split_at_sep:
  assumes "c \<notin> set a" "c \<notin> set a'"
  shows "a @ c # b = a' @ c # b' \<longleftrightarrow> a = a' \<and> b = b'"
proof
  assume eq: "a @ c # b = a' @ c # b'"
  have "takeWhile (\<lambda>x. x \<noteq> c) (a @ c # b) = a" "takeWhile (\<lambda>x. x \<noteq> c) (a' @ c # b') = a'"
    using assms by (auto simp: takeWhile_tail)
  then show "a = a' \<and> b = b'" using eq by auto
qed simp

section \<open>The loop over the batch\<close>

lemma fields_ok_level: "fields_ok ev \<Longrightarrow> map_of SEVERITY (ev_level ev) \<noteq> None"
  using in_keys_iff_map_of [of "ev_level ev" SEVERITY] by (simp add: fields_ok_def)

definition emit_event :: "settings \<Rightarrow> principal \<Rightarrow> event_env \<Rightarrow> telemetry_event \<Rightarrow> emitter \<Rightarrow> (py_exn + emit_out) \<times> emitter" where
  "emit_event cfg p env ev em =
     emit cfg (ee_emit env) (ev_app ev) (event_body ev) (ev_level ev) (ev_trace_id ev) (ev_span_id ev)
       (event_attributes ev p) em"

lemma emit_event_returns: "fields_ok ev \<Longrightarrow> \<exists>out. fst (emit_event cfg p env ev em) = Inr out"
  unfolding emit_event_def by (rule emit_returns) (simp_all add: fields_ok_level, simp_all add: fields_ok_def)

definition log_event :: "settings \<Rightarrow> principal \<Rightarrow> event_env \<Rightarrow> telemetry_event \<Rightarrow> fallback \<Rightarrow> fallback" where
  "log_event cfg p env ev fb =
     write_event cfg (ee_io env) (ee_time env) (fallback_record ev (event_body ev) (event_attributes ev p)) fb"

lemma forward_event_emits:
  assumes "fields_ok ev"
  obtains out where "fst (emit_event cfg p env ev (g_emitter g)) = Inr out" and "forward_event cfg env p ev g =
    (None, g\<lparr>g_emitter := snd (emit_event cfg p env ev (g_emitter g)),
             g_emitted := g_emitted g @ [out],
             g_fallback := (if fallback_active cfg (g_monitor g) then log_event cfg p env ev (g_fallback g)
                            else g_fallback g),
             g_accepted := Suc (g_accepted g)\<rparr>)"
proof -
  obtain out where out: "fst (emit_event cfg p env ev (g_emitter g)) = Inr out"
    using emit_event_returns [OF assms] by blast
  obtain res em where r: "emit_event cfg p env ev (g_emitter g) = (res, em)" by force
  show ?thesis
    by (rule that [of out, OF out]) (use out r in \<open>simp add: forward_event_def Let_def emit_event_def log_event_def\<close>)
qed

lemma forward_event_valid:
  assumes "fields_ok ev"
  obtains out where "forward_event cfg env p ev g =
    (None, g\<lparr>g_emitter := snd (emit_event cfg p env ev (g_emitter g)),
             g_emitted := g_emitted g @ [out],
             g_fallback := (if fallback_active cfg (g_monitor g) then log_event cfg p env ev (g_fallback g)
                            else g_fallback g),
             g_accepted := Suc (g_accepted g)\<rparr>)"
  using assms by (rule forward_event_emits)

text \<open>The sightings of a batch, and the events of it that are not duplicates, with their positions.\<close>

definition sightings ::
  "(string \<Rightarrow> string) \<Rightarrow> (nat \<Rightarrow> event_env) \<Rightarrow> principal \<Rightarrow> string \<Rightarrow> nat \<Rightarrow> telemetry_event list \<Rightarrow> (time \<times> string) list" where
  "sightings sha envs p ip i evs = map (\<lambda>(j, ev). (ee_now (envs j), signature sha ev (event_body ev) p ip)) (enumerate i evs)"

definition fresh ::
  "settings \<Rightarrow> (string \<Rightarrow> string) \<Rightarrow> (nat \<Rightarrow> event_env) \<Rightarrow> principal \<Rightarrow> string \<Rightarrow> nat \<Rightarrow> telemetry_event list \<Rightarrow> recent
   \<Rightarrow> (nat \<times> telemetry_event) list" where
  "fresh cfg sha envs p ip i evs r =
     map fst (filter (\<lambda>(x, dup). \<not> dup)
       (zip (enumerate i evs) (fst (run_checks (is_duplicate (dedupe_window_seconds cfg)) (sightings sha envs p ip i evs) r))))"

lemma fresh_Nil [simp]: "fresh cfg sha envs p ip i [] r = []"
  by (simp add: fresh_def)

lemma fresh_Cons:
  "fresh cfg sha envs p ip i (ev # evs) r =
     (let (dup, r') = is_duplicate (dedupe_window_seconds cfg) (signature sha ev (event_body ev) p ip) (ee_now (envs i)) r
      in (if dup then [] else [(i, ev)]) @ fresh cfg sha envs p ip (Suc i) evs r')"
  by (simp add: fresh_def sightings_def case_prod_beta Let_def)

lemma length_fresh: "length (fresh cfg sha envs p ip i evs r) \<le> length evs"
  by (induction evs arbitrary: i r) (auto simp: fresh_Cons case_prod_beta Let_def le_SucI)

text \<open>What the emission of an event tells of it, and the emission of a list of events, each in its environment.\<close>

definition carries :: "settings \<Rightarrow> emit_out \<Rightarrow> event_env \<times> principal \<times> telemetry_event \<Rightarrow> bool" where
  "carries cfg out x =
     (let (env, p, ev) = x
      in emitted_as cfg (ee_emit env) (ev_app ev) (event_body ev) (ev_level ev) (ev_trace_id ev) (ev_span_id ev)
           (event_attributes ev p) out)"

fun emit_pass ::
  "settings \<Rightarrow> principal \<Rightarrow> (nat \<Rightarrow> event_env) \<Rightarrow> (nat \<times> telemetry_event) list \<Rightarrow> emitter \<Rightarrow> emit_out list \<times> emitter" where
  "emit_pass cfg p envs [] em = ([], em)"
| "emit_pass cfg p envs ((j, ev) # fs) em =
     (let (r, em1) = emit_event cfg p (envs j) ev em;
          (outs, em2) = emit_pass cfg p envs fs em1
      in ((case r of Inl e \<Rightarrow> [] | Inr out \<Rightarrow> [out]) @ outs, em2))"

lemma emit_event_ok: "emitter_ok em \<Longrightarrow> emitter_ok (snd (emit_event cfg p env ev em))"
  by (simp add: emit_event_def emit_ok)

lemma emit_event_carries:
  assumes "fields_ok ev" "emitter_ok em"
  obtains out where "fst (emit_event cfg p env ev em) = Inr out" "carries cfg out (env, p, ev)"
proof -
  have "\<exists>out. fst (emit_event cfg p env ev em) = Inr out \<and> carries cfg out (env, p, ev)"
    unfolding emit_event_def carries_def Let_def prod.case
    by (rule emit_valid) (use assms in \<open>simp_all add: fields_ok_level, simp_all add: fields_ok_def\<close>)
  then show ?thesis using that by blast
qed

lemma emit_pass_length: "list_all (\<lambda>(j, ev). fields_ok ev) fs \<Longrightarrow> length (fst (emit_pass cfg p envs fs em)) = length fs"
proof (induction fs arbitrary: em)
  case (Cons x fs)
  obtain j ev where x: "x = (j, ev)" by force
  then obtain out where "fst (emit_event cfg p (envs j) ev em) = Inr out"
    using emit_event_returns [of ev cfg p "envs j" em] Cons.prems by auto
  then show ?case using Cons by (simp add: x case_prod_beta Let_def)
qed simp

lemma emit_pass_carries:
  "list_all (\<lambda>(j, ev). fields_ok ev) fs \<Longrightarrow> emitter_ok em \<Longrightarrow>
     list_all2 (carries cfg) (fst (emit_pass cfg p envs fs em)) (map (\<lambda>(j, ev). (envs j, p, ev)) fs)"
proof (induction fs arbitrary: em)
  case (Cons x fs)
  obtain j ev where x: "x = (j, ev)" by force
  then obtain out where "fst (emit_event cfg p (envs j) ev em) = Inr out" "carries cfg out (envs j, p, ev)"
    using emit_event_carries [of ev em cfg p "envs j"] Cons.prems by auto
  then show ?case
    using Cons.IH [OF _ emit_event_ok, of em cfg p "envs j" ev] Cons.prems by (simp add: x case_prod_beta Let_def)
qed simp

lemma emit_pass_ok: "emitter_ok em \<Longrightarrow> emitter_ok (snd (emit_pass cfg p envs fs em))"
proof (induction fs arbitrary: em)
  case (Cons x fs)
  then show ?case
    using Cons.IH [OF emit_event_ok [OF Cons.prems]] by (cases x) (simp add: case_prod_beta Let_def)
qed simp

lemma fresh_valid: "list_all fields_ok evs \<Longrightarrow> list_all (\<lambda>(j, ev). fields_ok ev) (fresh cfg sha envs p ip i evs r)"
  by (induction evs arbitrary: i r) (auto simp: fresh_Cons case_prod_beta Let_def)

text \<open>
  The state after a batch whose events are all valid, as separate passes over it: deduplication of every
  event first, then the emission of the fresh ones and, in fallback, their local log lines.
\<close>

definition after_batch ::
  "settings \<Rightarrow> (string \<Rightarrow> string) \<Rightarrow> (nat \<Rightarrow> event_env) \<Rightarrow> principal \<Rightarrow> string \<Rightarrow> nat \<Rightarrow> telemetry_event list
   \<Rightarrow> gateway \<Rightarrow> gateway" where
  "after_batch cfg sha envs p ip i evs g =
     (let fs = fresh cfg sha envs p ip i evs (g_recent g);
          (outs, em) = emit_pass cfg p envs fs (g_emitter g)
      in g\<lparr>g_recent := snd (run_checks (is_duplicate (dedupe_window_seconds cfg)) (sightings sha envs p ip i evs) (g_recent g)),
           g_emitter := em,
           g_fallback := (if fallback_active cfg (g_monitor g)
              then fold (\<lambda>(j, ev). log_event cfg p (envs j) ev) fs (g_fallback g) else g_fallback g),
           g_accepted := g_accepted g + length fs,
           g_duplicate := g_duplicate g + (length evs - length fs),
           g_emitted := g_emitted g @ outs\<rparr>)"

lemma after_batch_Nil: "after_batch cfg sha envs p ip i [] g = g"
  by (simp add: after_batch_def sightings_def)

lemma sightings_Cons:
  "sightings sha envs p ip i (ev # evs) =
     (ee_now (envs i), signature sha ev (event_body ev) p ip) # sightings sha envs p ip (Suc i) evs"
  by (simp add: sightings_def)

lemma after_batch_duplicate:
  assumes "is_duplicate (dedupe_window_seconds cfg) (signature sha ev (event_body ev) p ip) (ee_now (envs i)) (g_recent g) = (True, r')"
  shows "after_batch cfg sha envs p ip i (ev # evs) g =
    after_batch cfg sha envs p ip (Suc i) evs (g\<lparr>g_recent := r', g_duplicate := Suc (g_duplicate g)\<rparr>)"
  using assms length_fresh [of cfg sha envs p ip "Suc i" evs r']
  by (simp add: after_batch_def fresh_Cons sightings_Cons Let_def case_prod_beta Suc_diff_le)

lemma after_batch_fresh:
  assumes "is_duplicate (dedupe_window_seconds cfg) (signature sha ev (event_body ev) p ip) (ee_now (envs i)) (g_recent g) = (False, r')"
    and "fst (emit_event cfg p (envs i) ev (g_emitter g)) = Inr out"
  shows "after_batch cfg sha envs p ip i (ev # evs) g =
    after_batch cfg sha envs p ip (Suc i) evs
      (g\<lparr>g_recent := r', g_emitter := snd (emit_event cfg p (envs i) ev (g_emitter g)),
         g_emitted := g_emitted g @ [out],
         g_fallback := (if fallback_active cfg (g_monitor g) then log_event cfg p (envs i) ev (g_fallback g)
                        else g_fallback g),
         g_accepted := Suc (g_accepted g)\<rparr>)"
  using assms by (simp add: after_batch_def fresh_Cons sightings_Cons Let_def case_prod_beta)

lemma ingest_event_counts:
  assumes "fields_ok ev"
    and "is_duplicate (dedupe_window_seconds cfg) (signature sha ev (event_body ev) p ip) (ee_now env) (g_recent g) = (dup, r')"
  shows "let g' = snd (ingest_event cfg sha env p ip ev g)
         in g_recent g' = r' \<and> g_accepted g' = g_accepted g + (if dup then 0 else 1)
            \<and> g_duplicate g' = g_duplicate g + (if dup then 1 else 0)"
proof (cases dup)
  case False
  show ?thesis
    by (rule forward_event_valid [OF assms(1), of cfg env p "g\<lparr>g_recent := r'\<rparr>"])
       (use assms(2) False in \<open>simp add: ingest_event_def Let_def\<close>)
qed (use assms(2) in \<open>simp add: ingest_event_def Let_def\<close>)

lemma ingest_events_valid:
  assumes "list_all fields_ok evs"
  shows "ingest_events cfg sha envs p ip i evs g = (None, after_batch cfg sha envs p ip i evs g)"
  using assms
proof (induction evs arbitrary: i g)
  case (Cons ev evs)
  obtain dup r' where d: "is_duplicate (dedupe_window_seconds cfg) (signature sha ev (event_body ev) p ip) (ee_now (envs i)) (g_recent g) = (dup, r')"
    by force
  have valid: "fields_ok ev" "list_all fields_ok evs" using Cons.prems by simp_all
  show ?case
  proof (cases dup)
    case True
    let ?g1 = "g\<lparr>g_recent := r', g_duplicate := Suc (g_duplicate g)\<rparr>"
    have step: "ingest_event cfg sha (envs i) p ip ev g = (None, ?g1)"
      using d True by (simp add: ingest_event_def)
    show ?thesis
      using Cons.IH [OF valid(2), of "Suc i" ?g1] d True
      by (simp add: step after_batch_duplicate)
  next
    case False
    let ?g0 = "g\<lparr>g_recent := r'\<rparr>"
    obtain out where out: "fst (emit_event cfg p (envs i) ev (g_emitter ?g0)) = Inr out" and f: "forward_event cfg (envs i) p ev ?g0 =
      (None, ?g0\<lparr>g_emitter := snd (emit_event cfg p (envs i) ev (g_emitter ?g0)), g_emitted := g_emitted ?g0 @ [out],
         g_fallback := (if fallback_active cfg (g_monitor ?g0) then log_event cfg p (envs i) ev (g_fallback ?g0)
                        else g_fallback ?g0),
         g_accepted := Suc (g_accepted ?g0)\<rparr>)" (is "_ = (None, ?g1)")
      by (rule forward_event_emits [OF valid(1)])
    then have step: "ingest_event cfg sha (envs i) p ip ev g = (None, ?g1)"
      using d False by (simp add: ingest_event_def)
    have "after_batch cfg sha envs p ip i (ev # evs) g = after_batch cfg sha envs p ip (Suc i) evs ?g1"
      using d False out by (simp add: after_batch_fresh)
    then show ?thesis using Cons.IH [OF valid(2), of "Suc i" ?g1] by (simp add: step)
  qed
qed (simp add: after_batch_Nil)

lemma validated_fields_ok:
  assumes "validate_batch cfg dump_len body = Inr evs"
  shows "list_all fields_ok evs"
proof (cases "evs = []")
  case False
  then obtain vs where "validate_events cfg dump_len vs = Inr evs"
    using assms
    by (auto simp: validate_batch_def field_def batch_size_def and_then_Inr_iff
        split: pyval.splits option.splits if_splits)
  then have each: "map (validate_event cfg dump_len) vs = map Inr evs" by (simp add: validate_events_Inr)
  have "fields_ok e" if "e \<in> set evs" for e
  proof -
    have "Inr e \<in> set (map (validate_event cfg dump_len) vs)" unfolding each using that by simp
    then obtain w where "validate_event cfg dump_len w = Inr e" by auto
    then show ?thesis using validate_event_ok event_ok_def by blast
  qed
  then show ?thesis by (simp add: list_all_iff)
qed simp

abbreviation rate_check :: "settings \<Rightarrow> time \<Rightarrow> http_request \<Rightarrow> gateway \<Rightarrow> bool \<times> hits" where
  "rate_check cfg now request g \<equiv> rate_limited (rate_limit_per_min cfg) (client_ip cfg request) now (g_hits g)"

lemma post_ingest_limited:
  assumes "validate_batch cfg dump_len body = Inr evs" "fst (rate_check cfg now request g)"
  shows "post_ingest cfg lib sha dump_len now envs body request authz g =
    (Status 429, g\<lparr>g_hits := snd (rate_check cfg now request g)\<rparr>)"
  using assms by (simp add: post_ingest_def ingest_def Let_def case_prod_beta)

lemma post_ingest_accepted:
  assumes "validate_batch cfg dump_len body = Inr evs" "\<not> fst (rate_check cfg now request g)"
  shows "post_ingest cfg lib sha dump_len now envs body request authz g =
    (Status 204, after_batch cfg sha envs (principal_from_bearer cfg lib authz) (client_ip cfg request) 0 evs
                   (g\<lparr>g_hits := snd (rate_check cfg now request g)\<rparr>))"
  using assms ingest_events_valid [OF validated_fields_ok [OF assms(1)], of cfg sha envs
      "principal_from_bearer cfg lib authz" "client_ip cfg request" 0 "g\<lparr>g_hits := snd (rate_check cfg now request g)\<rparr>"]
  by (auto simp: post_ingest_def ingest_def Let_def case_prod_beta)

text \<open>The outputs of a validated batch, one for each event that is not a duplicate.\<close>

abbreviation batch_outputs ::
  "settings \<Rightarrow> (string \<Rightarrow> string) \<Rightarrow> (nat \<Rightarrow> event_env) \<Rightarrow> principal \<Rightarrow> string \<Rightarrow> nat \<Rightarrow> telemetry_event list \<Rightarrow> gateway \<Rightarrow> emit_out list" where
  "batch_outputs cfg sha envs p ip i evs g \<equiv> fst (emit_pass cfg p envs (fresh cfg sha envs p ip i evs (g_recent g)) (g_emitter g))"

lemma batch_outputs_length:
  "validate_batch cfg dump_len body = Inr evs \<Longrightarrow>
     length (batch_outputs cfg sha envs p ip i evs g) = length (fresh cfg sha envs p ip i evs (g_recent g))"
  using validated_fields_ok by (intro emit_pass_length fresh_valid)

lemma after_batch_frame [simp, frame_simps]:
  "g_hits (after_batch cfg sha envs p ip i evs g) = g_hits g"
  "g_monitor (after_batch cfg sha envs p ip i evs g) = g_monitor g"
  "g_emitted (after_batch cfg sha envs p ip i evs g) = g_emitted g @ batch_outputs cfg sha envs p ip i evs g"
  by (simp_all add: after_batch_def Let_def case_prod_beta)

lemma after_batch_counts:
  "g_accepted (after_batch cfg sha envs p ip i evs g) = g_accepted g + length (fresh cfg sha envs p ip i evs (g_recent g))"
  "g_duplicate (after_batch cfg sha envs p ip i evs g)
     = g_duplicate g + (length evs - length (fresh cfg sha envs p ip i evs (g_recent g)))"
  by (simp_all add: after_batch_def Let_def case_prod_beta)

section \<open>The events file\<close>

definition events_path :: "settings \<Rightarrow> path" where
  "events_path cfg = (fallback_log_dir cfg, EVENTS_FILE)"

definition event_line :: "principal \<Rightarrow> event_env \<Rightarrow> telemetry_event \<Rightarrow> string" where
  "event_line p env ev =
     json_dumps (PDict (timed (ee_time env) (fallback_record ev (event_body ev) (event_attributes ev p))))"

lemma log_event_handlers: "handlers_ok cfg fb \<Longrightarrow> handlers_ok cfg (log_event cfg p env ev fb)"
  using handlers_ok_write [of cfg fb] by (simp add: log_event_def write_event_def Let_def handlers_ok_def)

lemma log_event_file:
  assumes "handlers_ok cfg fb" "fallback_log_dir cfg \<noteq> []" "ee_io env = None"
  shows "file_at (events_path cfg) (log_event cfg p env ev fb) =
    append_line (fallback_log_max_bytes cfg) (fallback_log_backup_count cfg) (event_line p env ev) (file_at (events_path cfg) fb)"
  using write_record_file [OF assms(1,2)] assms(3)
  by (simp add: log_event_def write_event_def Let_def events_path_def event_line_def)

lemma log_events_file:
  assumes "handlers_ok cfg fb" "fallback_log_dir cfg \<noteq> []" "\<forall>j. ee_io (envs j) = None"
  shows "file_at (events_path cfg) (fold (\<lambda>(j, ev). log_event cfg p (envs j) ev) fs fb) =
    fold (append_line (fallback_log_max_bytes cfg) (fallback_log_backup_count cfg))
      (map (\<lambda>(j, ev). event_line p (envs j) ev) fs) (file_at (events_path cfg) fb)"
  using assms(1)
  by (induction fs arbitrary: fb) (auto simp: log_event_file log_event_handlers assms(2,3))

lemma wf_event_attributes: "wf_dict (event_attributes ev p)"
  unfolding event_attributes_def by (rule wf_merge_dict) (simp add: wf_dict_def)

lemma dumpable_attributes: "dumpable (PDict (map (\<lambda>(k, v). (k, PStr v)) (drop_none (event_attributes ev p))))"
proof -
  have set_map_filter: "x \<in> set (List.map_filter (\<lambda>(k, v). map_option (Pair k) v) d) \<longleftrightarrow> (fst x, Some (snd x)) \<in> set d"
    for x and d :: "(string, string option) dict"
    by (force simp: List.map_filter_def)
  have "distinct (keys (drop_none d))" if "distinct (keys d)" for d :: "(string, string option) dict"
    using that by (induction d) (force simp: drop_none_def set_map_filter split: option.splits)+
  then show ?thesis
    using wf_event_attributes [of ev p] by (auto simp: wf_dict_def comp_def case_prod_beta list_all_iff)
qed

lemma event_json_line: "json_line (timed now (fallback_record ev (event_body ev) (event_attributes ev p)))
    (json_dumps (PDict (timed now (fallback_record ev (event_body ev) (event_attributes ev p)))))"
proof -
  have "list_all (\<lambda>(k, v). dumpable v) (fallback_record ev b (event_attributes ev p))" for b
    using dumpable_attributes [of ev p] by (auto simp: fallback_record_def split: option.splits)
  then show ?thesis unfolding json_line_def by (blast intro: dumpable_timed)
qed

lemma event_line_one_line: "CHR 0x0A \<notin> set (event_line p env ev)"
  unfolding event_line_def by (rule json_line_one_line) (rule event_json_line)

definition empty_gateway :: gateway where
  "empty_gateway = \<lparr>g_hits = [], g_recent = [], g_emitter = new_emitter, g_monitor = new_monitor,
     g_fallback = new_fallback, g_accepted = 0, g_duplicate = 0, g_emitted = []\<rparr>"

text \<open>Inputs of the examples.\<close>

definition member :: "string \<Rightarrow> string \<Rightarrow> principal" where
  "member tenant user = \<lparr>company_id = Some tenant, user_id = Some user, authenticated = True, roles = []\<rparr>"

definition plain_event :: "string \<Rightarrow> telemetry_event" where
  "plain_event m = \<lparr>ev_type = ''log'', ev_level = ''info'', ev_message = m, ev_error = None, ev_stack = None,
     ev_url = None, ev_app = None, ev_app_version = None, ev_trace_id = None, ev_span_id = None, ev_context = []\<rparr>"

lemma plain_event_ok [simp]: "fields_ok (plain_event ''boom'')"
  by (simp add: fields_ok_def plain_event_def defaults_ok del: set_map)

definition quiet_env :: event_env where
  "quiet_env = \<lparr>ee_now = 0, ee_emit = \<lparr>time_ns = 0, factory_error = None, sink_error = None\<rparr>, ee_time = [], ee_io = None\<rparr>"

definition boom_body :: pyval where
  "boom_body = PDict [(''events'', PList [PDict [(''message'', PStr ''boom'')]])]"

lemma boom_body_valid: "validate_batch default_settings (\<lambda>ev. 40) boom_body = Inr [plain_event ''boom'']"
  by (simp add: boom_body_def validate_batch_def field_def validate_event_def event_fields_def check_str_def
      event_size_def batch_size_def default_settings_def plain_event_def)

lemma anonymous_bearer: "principal_from_bearer cfg lib None = ANONYMOUS"
  by (simp add: principal_from_bearer_def is_bearer_def)

lemma one_line_file: "rfile_lines (append_line mb bc l empty_file) = [l]"
  by (subst append_line_lines) (simp add: should_rollover_def empty_file_def rfile_lines_def)

section \<open>Properties\<close>

text \<open>C7: what one ingest request does.  An invalid body is answered 422 and changes nothing; a limited
  client gets 429 and only the rate-limit table changes; every other request is answered 204, never an
  error, whatever the SDK and the disk do: each of its events is counted once, as accepted or as
  duplicate, each accepted one is handed to the emitter exactly once, and the monitor is left alone.\<close>

theorem ingest_outcome:
  "let (a, g') = post_ingest cfg lib sha dump_len now envs body request authz g;
       (limited, hits') = rate_limited (rate_limit_per_min cfg) (client_ip cfg request) now (g_hits g)
   in case validate_batch cfg dump_len body of
        Inl e \<Rightarrow> a = Status 422 \<and> g' = g
      | Inr evs \<Rightarrow>
          if limited then a = Status 429 \<and> g' = g\<lparr>g_hits := hits'\<rparr>
          else a = Status 204 \<and> g_hits g' = hits' \<and> g_monitor g' = g_monitor g
            \<and> g_accepted g' + g_duplicate g' = g_accepted g + g_duplicate g + length evs
            \<and> (\<exists>outs. g_emitted g' = g_emitted g @ outs \<and> g_accepted g' = g_accepted g + length outs)"
proof (cases "validate_batch cfg dump_len body")
  case (Inl e)
  then show ?thesis by (simp add: post_ingest_def case_prod_beta Let_def)
next
  case (Inr evs)
  show ?thesis
  proof (cases "fst (rate_check cfg now request g)")
    case True
    then show ?thesis using post_ingest_limited [OF Inr True] Inr by (simp add: case_prod_beta Let_def)
  next
    case False
    note o = post_ingest_accepted [OF Inr False, where lib = lib and sha = sha and envs = envs and authz = authz]
    show ?thesis
      using Inr False length_fresh [of cfg sha envs "principal_from_bearer cfg lib authz" "client_ip cfg request" 0 evs "g_recent g"]
        batch_outputs_length [OF Inr, where sha = sha and envs = envs and p = "principal_from_bearer cfg lib authz"
          and ip = "client_ip cfg request" and i = 0 and g = "g\<lparr>g_hits := snd (rate_check cfg now request g)\<rparr>"]
      by (simp add: o case_prod_beta Let_def after_batch_counts)
  qed
qed

text \<open>C25: the loop over a batch is a sequence of passes.  For an accepted request the handler's loop
  gives the state of: deduplicating all events against the table, then emitting the fresh ones in order,
  then, when the fallback is active, writing a local line for each; the passes do not disturb each
  other.  The emission pass hands over one record for each fresh event, in order, which tells that event: its body, severity,
  identifiers, attributes and clock, or the SDK's own failure for it.\<close>

theorem ingest_passes:
  assumes "validate_batch cfg dump_len body = Inr evs"
    and "\<not> fst (rate_limited (rate_limit_per_min cfg) (client_ip cfg request) now (g_hits g))"
    and "emitter_ok (g_emitter g)"
  shows "let p = principal_from_bearer cfg lib authz; ip = client_ip cfg request;
             g' = after_batch cfg sha envs p ip 0 evs
                    (g\<lparr>g_hits := snd (rate_limited (rate_limit_per_min cfg) ip now (g_hits g))\<rparr>)
         in post_ingest cfg lib sha dump_len now envs body request authz g = (Status 204, g')
            \<and> (\<exists>outs. g_emitted g' = g_emitted g @ outs
                \<and> list_all2 (carries cfg) outs
                    (map (\<lambda>(j, ev). (envs j, p, ev)) (fresh cfg sha envs p ip 0 evs (g_recent g))))"
  using post_ingest_accepted [OF assms(1,2)] assms(3) validated_fields_ok [OF assms(1)]
  by (simp add: Let_def emit_pass_carries fresh_valid)

theorem ingest_passes_witness:
  "let g' = after_batch default_settings (\<lambda>s. s) (\<lambda>i. quiet_env) ANONYMOUS ''unknown'' 0 [plain_event ''boom'']
              (empty_gateway\<lparr>g_hits := [(''unknown'', [0])]\<rparr>)
   in post_ingest default_settings reject_all_jwt (\<lambda>s. s) (\<lambda>ev. 40) 0 (\<lambda>i. quiet_env) boom_body empty_request None empty_gateway
        = (Status 204, g')
      \<and> (\<exists>lgr rec. g_emitted g' = [Exported lgr rec] \<and> severity_text rec = ''INFO'' \<and> record_body rec = ''boom''
            \<and> record_attributes rec = [(''telemetry.type'', ''log''), (''level'', ''info'')])"
proof -
  have ip: "client_ip default_settings empty_request = ''unknown''"
    by (simp add: client_ip_def empty_request_def default_settings_def Let_def)
  have r: "rate_limited (rate_limit_per_min default_settings) ''unknown'' 0 (g_hits empty_gateway)
      = (False, [(''unknown'', [0])])"
    by (simp add: rate_limited_def prune_hits_def empty_gateway_def default_settings_def)
  have n: "\<not> fst (rate_limited (rate_limit_per_min default_settings) (client_ip default_settings empty_request) 0 (g_hits empty_gateway))"
    by (simp add: r ip)
  have f: "fresh default_settings (\<lambda>s. s) (\<lambda>i. quiet_env) ANONYMOUS ''unknown'' 0 [plain_event ''boom''] (g_recent empty_gateway)
      = [(0, plain_event ''boom'')]"
    by (simp add: fresh_Cons is_duplicate_def prune_recent_def empty_gateway_def)
  have body: "event_body (plain_event ''boom'') = ''boom''" by (simp add: event_body_def plain_event_def)
  have attrs: "drop_none (event_attributes (plain_event ''boom'') ANONYMOUS) = [(''telemetry.type'', ''log''), (''level'', ''info'')]"
    by (simp add: event_attributes_def plain_event_def ANONYMOUS_def merge_dict_def drop_none_def List.map_filter_def)
  have carried: "carries default_settings out (quiet_env, ANONYMOUS, plain_event ''boom'')
      \<Longrightarrow> \<exists>lgr rec. out = Exported lgr rec \<and> severity_text rec = ''INFO'' \<and> record_body rec = ''boom''
            \<and> record_attributes rec = [(''telemetry.type'', ''log''), (''level'', ''info'')]" for out
    by (cases out) (auto simp: carries_def emitted_as_def body attrs quiet_env_def default_settings_def, simp_all add: plain_event_def SEVERITY_def)
  have e: "emitter_ok (g_emitter empty_gateway)" "g_emitted empty_gateway = []" by (simp_all add: empty_gateway_def)
  from ingest_passes [OF boom_body_valid n e(1), where lib = reject_all_jwt and sha = "\<lambda>s. s" and envs = "\<lambda>i. quiet_env" and authz = None]
  show ?thesis
    unfolding Let_def ip r snd_conv anonymous_bearer f e(2)
    by (auto simp: list_all2_Cons2 dest!: carried)
qed

text \<open>C24: a forged \<open>X-Forwarded-For\<close> does not change the client address.  When the trusted proxies
  appended their \<open>trusted_proxy_hops\<close> entries, the address is the first of those, whatever the client
  itself sent in the header before them.\<close>

theorem client_ip_unspoofable:
  assumes "0 < trusted_proxy_hops cfg"
    and "map_of (req_headers request) ''x-forwarded-for'' = Some (forged @ CHR '','' # trusted)"
    and "int (length (forwarded_for trusted)) = trusted_proxy_hops cfg"
  shows "client_ip cfg request = hd (forwarded_for trusted)"
proof -
  have "forwarded_for trusted \<noteq> []" using assms(1,3) by auto
  moreover have "nat (trusted_proxy_hops cfg) = length (forwarded_for trusted)" using assms(3) by simp
  ultimately show ?thesis
    using assms by (simp add: client_ip_def Let_def forwarded_for_append nth_append hd_conv_nth)
qed

theorem client_ip_unspoofable_witness:
  "client_ip (default_settings\<lparr>trusted_proxy_hops := 2\<rparr>)
     \<lparr>req_headers = [(''x-forwarded-for'', ''10.9.9.9, 1.1.1.1, 203.0.113.7, 10.0.0.2'')], req_cookies = [], req_client = Some ''10.0.0.3''\<rparr>
   = ''203.0.113.7''"
proof -
  let ?cfg = "default_settings\<lparr>trusted_proxy_hops := 2\<rparr>"
  let ?r = "\<lparr>req_headers = [(''x-forwarded-for'', ''10.9.9.9, 1.1.1.1, 203.0.113.7, 10.0.0.2'')], req_cookies = [], req_client = Some ''10.0.0.3''\<rparr>"
  have f: "forwarded_for '' 203.0.113.7, 10.0.0.2'' = [''203.0.113.7'', ''10.0.0.2'']"
    by (simp add: forwarded_for_def py_split_def py_strip_def py_lstrip_def is_space_def)
  have "client_ip ?cfg ?r = hd (forwarded_for '' 203.0.113.7, 10.0.0.2'')"
    by (rule client_ip_unspoofable [where forged = "''10.9.9.9, 1.1.1.1''"]) (simp_all add: f)
  then show ?thesis by (simp add: f)
qed

text \<open>C30: a client cannot forge the identity of its events.  The tenant, user, type and level attributes are those
  of the verified principal and of the event itself whatever the context holds, and every other attribute that is
  not one of the nine fixed ones carries the \<open>ctx.\<close> prefix.\<close>

theorem context_cannot_override:
  "map_of (event_attributes ev p) ''company_id'' = Some (company_id p)
   \<and> map_of (event_attributes ev p) ''user_id'' = Some (user_id p)
   \<and> map_of (event_attributes ev p) ''telemetry.type'' = Some (Some (ev_type ev))
   \<and> map_of (event_attributes ev p) ''level'' = Some (Some (ev_level ev))
   \<and> map_of (drop_none (event_attributes ev p)) ''company_id'' = company_id p
   \<and> map_of (drop_none (event_attributes ev p)) ''user_id'' = user_id p
   \<and> list_all (\<lambda>k. (k \<in> set [''telemetry.type'', ''level'', ''app'', ''app.version'', ''url'', ''company_id'', ''user_id'', ''error'', ''stack''])
                  \<noteq> py_startswith k ''ctx.'') (keys (event_attributes ev p))"
proof -
  let ?ctx = "map (\<lambda>(k, v). (''ctx.'' @ k, Some v)) (ev_context ev)"
  have ctx: "py_startswith k ''ctx.''" if "k \<in> set (keys ?ctx)" for k
    using that by (auto simp: py_startswith_def)
  have "map_of (rev ?ctx) k = None" if "\<not> py_startswith k ''ctx.''" for k
    using that ctx [of k] by (simp only: map_of_eq_None_iff set_rev set_map) blast
  then have look: "map_of (event_attributes ev p) k = map_of
      [(''telemetry.type'', Some (ev_type ev)), (''level'', Some (ev_level ev)), (''app'', ev_app ev),
       (''app.version'', ev_app_version ev), (''url'', ev_url ev), (''company_id'', company_id p),
       (''user_id'', user_id p), (''error'', ev_error ev), (''stack'', ev_stack ev)] k"
    if "\<not> prefix ''ctx.'' k" for k
    using that by (simp add: event_attributes_def map_of_merge_dict py_startswith_def)
  have "wf_dict (event_attributes ev p)"
    unfolding event_attributes_def by (rule wf_merge_dict) (simp add: wf_dict_def)
  then have drop: "map_of (drop_none (event_attributes ev p)) k = (case map_of (event_attributes ev p) k of None \<Rightarrow> None | Some v \<Rightarrow> v)" for k
    by (simp add: map_of_drop_none wf_dict_def)
  have "(k \<in> set [''telemetry.type'', ''level'', ''app'', ''app.version'', ''url'', ''company_id'', ''user_id'', ''error'', ''stack'']) \<noteq> py_startswith k ''ctx.''"
    if "k \<in> set (keys (event_attributes ev p))" for k
    using that ctx [of k] unfolding event_attributes_def keys_merge_dict by (auto simp: py_startswith_def)
  then show ?thesis
    by (simp add: look drop list_all_iff del: set_map)
qed

text \<open>C26: deduplication never crosses tenants or users.  For authenticated senders whose identifiers hold no
  \<open>|\<close> and are not the literal text \<open>None\<close> (which is how a token without the claim reads), equal signature texts come
  from the same tenant, the same user and the same event type, and agree on body and stack joined by \<open>|\<close>.\<close>

theorem signature_separates_tenants:
  assumes "authenticated p" "authenticated q"
    and "CHR ''|'' \<notin> set (none_or (company_id p) @ none_or (user_id p) @ ev_type a)"
    and "CHR ''|'' \<notin> set (none_or (company_id q) @ none_or (user_id q) @ ev_type b)"
    and "Some ''None'' \<notin> {company_id p, user_id p, company_id q, user_id q}"
    and "signature_text a body p ip = signature_text b body' q ip'"
  shows "company_id p = company_id q \<and> user_id p = user_id q \<and> ev_type a = ev_type b
    \<and> body @ ''|'' @ (case ev_stack a of None \<Rightarrow> [] | Some s \<Rightarrow> s) = body' @ ''|'' @ (case ev_stack b of None \<Rightarrow> [] | Some s \<Rightarrow> s)"
proof -
  have "x = y" if "none_or x = none_or y" "Some ''None'' \<notin> {x, y}" for x y
    using that by (auto simp: none_or_def split: option.splits)
  then show ?thesis using assms by (simp add: signature_text_def who_def split_at_sep)
qed

theorem signature_separates_tenants_witness:
  "signature_text (plain_event ''boom'') ''boom'' (member ''acme'' ''u1'') ''10.0.0.1''
   \<noteq> signature_text (plain_event ''boom'') ''boom'' (member ''globex'' ''u1'') ''10.0.0.1''"
proof
  assume "signature_text (plain_event ''boom'') ''boom'' (member ''acme'' ''u1'') ''10.0.0.1''
   = signature_text (plain_event ''boom'') ''boom'' (member ''globex'' ''u1'') ''10.0.0.1''"
  from signature_separates_tenants [OF _ _ _ _ _ this] show False
    by (simp add: member_def plain_event_def none_or_def)
qed

text \<open>C40: with a \<open>|\<close> inside an identifier the separation fails.  The signatures of one event sent by two authenticated
  senders agree exactly when their identifiers agree once joined by \<open>|\<close>, so two senders of different tenants can
  collide; the event that the second one sends within the window is then counted as a duplicate of the first's: it is not
  accepted, not emitted and not logged.\<close>

theorem signature_collision:
  assumes "fields_ok ev" "length (g_recent g) < MAX_TRACKED_KEYS"
    and "ee_now env' - ee_now env < dedupe_window_seconds cfg"
  shows "(signature_text ev body (member t u) ip = signature_text ev body (member t' u') ip' \<longleftrightarrow> t @ ''|'' @ u = t' @ ''|'' @ u')
   \<and> (t @ ''|'' @ u = t' @ ''|'' @ u' \<longrightarrow>
        (let g1 = snd (ingest_event cfg sha env (member t u) ip ev g)
         in \<exists>r. ingest_event cfg sha env' (member t' u') ip' ev g1 =
                 (None, g1\<lparr>g_recent := r, g_duplicate := Suc (g_duplicate g1)\<rparr>)))"
proof -
  have who: "who (member t u) ip = t @ ''|'' @ u" for t u ip by (simp add: who_def none_or_def member_def)
  have same: "signature_text ev body (member t u) ip = signature_text ev body (member t' u') ip' \<longleftrightarrow> t @ ''|'' @ u = t' @ ''|'' @ u'" for body
    unfolding signature_text_def who by (simp only: append_assoc [symmetric] append_same_eq)
  let ?k = "signature sha ev (event_body ev) (member t u) ip"
  let ?g1 = "snd (ingest_event cfg sha env (member t u) ip ev g)"
  let ?r = "AList.update ?k (ee_now env) (g_recent g)"
  have "prune_recent w now (g_recent g) = g_recent g" for w now using assms(2) by (simp add: prune_recent_small)
  then obtain dup where first: "is_duplicate (dedupe_window_seconds cfg) ?k (ee_now env) (g_recent g) = (dup, ?r)"
    by (simp add: is_duplicate_def Let_def)
  have r: "g_recent ?g1 = ?r" using ingest_event_counts [OF assms(1) first] by (simp add: Let_def)
  have "length ?r \<le> MAX_TRACKED_KEYS" using assms(2) by (simp add: dict_simps)
  then have "fst (is_duplicate (dedupe_window_seconds cfg) ?k (ee_now env') ?r)"
    using assms(3) by (auto simp: is_duplicate_def Let_def prune_recent_small update_conv' split: option.splits)
  then obtain r2 where second: "is_duplicate (dedupe_window_seconds cfg) ?k (ee_now env') (g_recent ?g1) = (True, r2)"
    unfolding r by (metis prod.collapse)
  have "ingest_event cfg sha env' (member t' u') ip' ev ?g1 = (None, ?g1\<lparr>g_recent := r2, g_duplicate := Suc (g_duplicate ?g1)\<rparr>)"
    if "t @ ''|'' @ u = t' @ ''|'' @ u'"
  proof -
    have "signature sha ev (event_body ev) (member t' u') ip' = ?k" unfolding signature_def same [THEN iffD2, OF that] ..
    then show ?thesis by (subst ingest_event_def) (simp only: second, simp)
  qed
  then show ?thesis unfolding Let_def using same by blast
qed

theorem signature_collision_witness:
  "company_id (member ''acme'' ''eu|u1'') \<noteq> company_id (member ''acme|eu'' ''u1'')
   \<and> (let g1 = snd (ingest_event default_settings (\<lambda>s. s) quiet_env (member ''acme'' ''eu|u1'') ''10.0.0.1'' (plain_event ''boom'') empty_gateway)
      in \<exists>r. ingest_event default_settings (\<lambda>s. s) quiet_env (member ''acme|eu'' ''u1'') ''10.0.0.2'' (plain_event ''boom'') g1 =
              (None, g1\<lparr>g_recent := r, g_duplicate := Suc (g_duplicate g1)\<rparr>))"
proof -
  have h: "length (g_recent empty_gateway) < MAX_TRACKED_KEYS"
    "ee_now quiet_env - ee_now quiet_env < dedupe_window_seconds default_settings"
    by (simp_all add: empty_gateway_def MAX_TRACKED_KEYS_def quiet_env_def default_settings_def)
  show ?thesis
    using signature_collision [OF plain_event_ok h, where t = "''acme''" and u = "''eu|u1''" and t' = "''acme|eu''" and u' = "''u1''"
        and sha = "\<lambda>s. s" and ip = "''10.0.0.1''" and ip' = "''10.0.0.2''"]
    by (simp add: member_def)
qed

text \<open>In fallback nothing accepted is lost.  While a trigger component is down and the log directory
  opens, the events file receives, in order, exactly one line for each accepted event of the request, each a
  single line of text (whatever the client put into the event), and rotates as configured.\<close>

theorem fallback_lines:
  assumes "validate_batch cfg dump_len body = Inr evs"
    and "\<not> fst (rate_limited (rate_limit_per_min cfg) (client_ip cfg request) now (g_hits g))"
    and "fallback_active cfg (g_monitor g)" "handlers_ok cfg (g_fallback g)" "fallback_log_dir cfg \<noteq> []"
    and "\<forall>j. ee_io (envs j) = None"
  shows "let p = principal_from_bearer cfg lib authz;
             g' = snd (post_ingest cfg lib sha dump_len now envs body request authz g);
             lines = map (\<lambda>(j, ev). event_line p (envs j) ev) (fresh cfg sha envs p (client_ip cfg request) 0 evs (g_recent g))
         in file_at (events_path cfg) (g_fallback g') =
              fold (append_line (fallback_log_max_bytes cfg) (fallback_log_backup_count cfg)) lines
                (file_at (events_path cfg) (g_fallback g))
            \<and> g_accepted g' = g_accepted g + length lines
            \<and> list_all (\<lambda>l. CHR 0x0A \<notin> set l) lines"
proof -
  show ?thesis
    using log_events_file [OF assms(4-6)] assms(3) post_ingest_accepted [OF assms(1,2), where lib = lib and sha = sha and envs = envs and authz = authz]
    by (simp add: Let_def after_batch_counts list_all_iff event_line_one_line case_prod_beta)
       (simp add: after_batch_def Let_def case_prod_beta)
qed

definition degraded_gateway :: gateway where
  "degraded_gateway = empty_gateway\<lparr>g_monitor := new_monitor\<lparr>components :=
     [(''loki'', \<lparr>component = ''loki'', healthy = False, detail = ''ConnectError'', checked_at = ''t0''\<rparr>)]\<rparr>\<rparr>"

theorem fallback_lines_witness:
  "rfile_lines (file_at (events_path (default_settings\<lparr>fallback_log_dir := ''/var/log/obs''\<rparr>))
     (g_fallback (snd (post_ingest (default_settings\<lparr>fallback_log_dir := ''/var/log/obs''\<rparr>) reject_all_jwt (\<lambda>s. s) (\<lambda>ev. 40) 0
        (\<lambda>i. quiet_env) boom_body empty_request None degraded_gateway))))
   = [event_line ANONYMOUS quiet_env (plain_event ''boom'')]"
proof -
  let ?cfg = "default_settings\<lparr>fallback_log_dir := ''/var/log/obs''\<rparr>"
  have v: "validate_batch ?cfg (\<lambda>ev. 40) boom_body = Inr [plain_event ''boom'']"
    using boom_body_valid by (simp add: validate_batch_def boom_body_def field_def and_then_Inr_iff validate_event_Inr batch_size_def default_settings_def)
  have r: "\<not> fst (rate_limited (rate_limit_per_min ?cfg) (client_ip ?cfg empty_request) 0 (g_hits degraded_gateway))"
    by (simp add: rate_limited_def prune_hits_def empty_gateway_def degraded_gateway_def default_settings_def)
  have a: "fallback_active ?cfg (g_monitor degraded_gateway)"
    by (simp add: fallback_active_def degraded_gateway_def default_settings_def)
  have h: "handlers_ok ?cfg (g_fallback degraded_gateway)" "fallback_log_dir ?cfg \<noteq> []" "\<forall>j :: nat. ee_io quiet_env = None"
    by (simp_all add: degraded_gateway_def empty_gateway_def quiet_env_def)
  have f: "fresh ?cfg (\<lambda>s. s) (\<lambda>i. quiet_env) ANONYMOUS ip 0 [plain_event ''boom''] (g_recent degraded_gateway) = [(0, plain_event ''boom'')]" for ip
    by (simp add: fresh_Cons is_duplicate_def prune_recent_def degraded_gateway_def empty_gateway_def)
  have e: "file_at (events_path ?cfg) (g_fallback degraded_gateway) = empty_file"
    by (simp add: degraded_gateway_def empty_gateway_def new_fallback_def file_at_def)
  show ?thesis
    using fallback_lines [OF v r a h, where lib = reject_all_jwt and sha = "\<lambda>s. s" and authz = None]
    by (simp add: Let_def anonymous_bearer f e one_line_file)
qed

text \<open>A line of the events file loses nothing.  Whatever text the client, its token and the clock supply, reading the
  line back gives the record that was written: the time, the service, the level, the body, the two identifiers
  and the attributes that have a value, in this order.
\<close>

theorem fallback_line_reads_back:
  "json_loads ft (event_line p env ev) = Some (Inr (PDict
     ((''time'', PStr (ee_time env)) # fallback_record ev (event_body ev) (event_attributes ev p))))"
proof -
  have "timed (ee_time env) (fallback_record ev b a) = (''time'', PStr (ee_time env)) # fallback_record ev b a" for b a
    by (rule timed_eq) (simp_all add: fallback_record_def)
  then show ?thesis
    using json_line_loads [OF event_json_line [of "ee_time env" ev p], of ft] by (simp only: event_line_def)
qed

end
