(* ===== verification/GwAuthz.thy ===== *)
theory GwAuthz
  imports GwAuth
begin

text \<open>
  The RBAC seam (\<open>obs_gateway/authz.py\<close>): the three authorizers, the route guard
  \<open>require_action\<close>, and the forward-auth endpoint \<open>/authz/verify\<close> of the edge proxy.

  The \<open>Authorizer\<close> protocol is the locale \<open>authorizer\<close>; the static and the external authorizer
  are interpretations of it.  The external RBAC service is a parameter: \<open>post url payload\<close> is the
  outcome of the HTTP call, an exception or an answer with its status and the result of \<open>resp.json()\<close>.
\<close>

record decision =
  allowed :: bool
  reason :: string
  grafana_role :: "string option"

record rbac_answer =
  answer_status :: int
  answer_json :: "string + pyval"

type_synonym rbac_post = "string \<Rightarrow> pyval \<Rightarrow> string + rbac_answer"

definition WILDCARD :: string where
  "WILDCARD = ''*''"

definition GRAFANA_ROLE_RANK :: "(string, nat) dict" where
  "GRAFANA_ROLE_RANK = [(''Viewer'', 1), (''Editor'', 2), (''Admin'', 3)]"

definition role_rank :: "string \<Rightarrow> nat" where
  "role_rank role = (case map_of GRAFANA_ROLE_RANK role of None \<Rightarrow> 0 | Some n \<Rightarrow> n)"

text \<open>\<open>max(xs, key=f, default=None)\<close>: the first element of maximal key.\<close>

definition py_max_by :: "('a \<Rightarrow> nat) \<Rightarrow> 'a list \<Rightarrow> 'a option" where
  "py_max_by f xs =
     (case xs of [] \<Rightarrow> None | x # xs' \<Rightarrow> Some (foldl (\<lambda>m y. if f y > f m then y else m) x xs'))"

definition mapped_roles :: "settings \<Rightarrow> principal \<Rightarrow> string list" where
  "mapped_roles cfg p = List.map_filter (map_of (authz_grafana_roles cfg)) (roles p)"

definition grafana_role_of :: "settings \<Rightarrow> principal \<Rightarrow> string option" where
  "grafana_role_of cfg p = py_max_by role_rank (mapped_roles cfg p)"

text \<open>Python's \<open>x or default\<close> on an optional string.\<close>

definition str_or :: "string option \<Rightarrow> string \<Rightarrow> string" where
  "str_or x d = (if opt_truthy x then the x else d)"

section \<open>Authorizers\<close>

definition deny :: "string \<Rightarrow> decision" where
  "deny r = \<lparr>allowed = False, reason = r, grafana_role = None\<rparr>"

definition authorize_all :: "settings \<Rightarrow> principal \<Rightarrow> string \<Rightarrow> string option \<Rightarrow> decision" where
  "authorize_all cfg p action tenant =
     \<lparr>allowed = True, reason = ''authz disabled'',
      grafana_role = Some (str_or (grafana_role_of cfg p) ''Viewer'')\<rparr>"

definition granted :: "settings \<Rightarrow> principal \<Rightarrow> string list" where
  "granted cfg p = concat (map (\<lambda>role. case map_of (authz_role_permissions cfg) role of
                                          None \<Rightarrow> [] | Some ps \<Rightarrow> ps) (roles p))"

definition authorize_static :: "settings \<Rightarrow> principal \<Rightarrow> string \<Rightarrow> string option \<Rightarrow> decision" where
  "authorize_static cfg p action tenant =
     (if \<not> authenticated p then deny ''authentication required''
      else if WILDCARD \<in> set (granted cfg p) then
        \<lparr>allowed = True, reason = ''wildcard role'', grafana_role = grafana_role_of cfg p\<rparr>
      else if action \<notin> set (granted cfg p) then deny (''no role grants '' @ action)
      else if tenant \<noteq> None \<and> tenant \<noteq> company_id p then
        deny ''cross-tenant access requires a wildcard role''
      else \<lparr>allowed = True, reason = ''role grants action'', grafana_role = grafana_role_of cfg p\<rparr>)"

definition rbac_payload :: "principal \<Rightarrow> string \<Rightarrow> string option \<Rightarrow> pyval" where
  "rbac_payload p action tenant =
     PDict [(''subject'', PDict [(''user_id'', pstr_opt (user_id p)),
                                 (''company_id'', pstr_opt (company_id p)),
                                 (''roles'', PList (map PStr (roles p)))]),
            (''action'', PStr action),
            (''tenant'', pstr_opt tenant)]"

definition decision_of_body :: "settings \<Rightarrow> principal \<Rightarrow> (string, pyval) dict \<Rightarrow> decision" where
  "decision_of_body cfg p body =
     \<lparr>allowed = (map_of body ''allowed'' = Some (PBool True)),
      reason = py_str (case map_of body ''reason'' of None \<Rightarrow> PStr ''external decision'' | Some v \<Rightarrow> v),
      grafana_role = (case map_of body ''grafana_role'' of
                        None \<Rightarrow> grafana_role_of cfg p
                      | Some v \<Rightarrow> (if py_truthy v then Some (py_str v) else grafana_role_of cfg p))\<rparr>"

definition authorize_external :: "settings \<Rightarrow> rbac_post \<Rightarrow> principal \<Rightarrow> string \<Rightarrow> string option \<Rightarrow> decision" where
  "authorize_external cfg post p action tenant =
     (if \<not> authenticated p then deny ''authentication required''
      else if \<not> opt_truthy (authz_url cfg) then deny ''OBS_AUTHZ_URL not configured''
      else case post (the (authz_url cfg)) (rbac_payload p action tenant) of
        Inl exc \<Rightarrow> deny ''authorization service unavailable''
      | Inr resp \<Rightarrow>
          (case (if answer_status resp = 200 then answer_json resp else Inr (PDict [])) of
             Inl exc \<Rightarrow> deny ''authorization service unavailable''
           | Inr body \<Rightarrow>
               (if answer_status resp \<noteq> 200 then
                  deny (''authorization service answered HTTP '' @ py_int_str (answer_status resp))
                else case body of
                  PDict kvs \<Rightarrow> decision_of_body cfg p kvs
                | _ \<Rightarrow> deny (''authorization service answered HTTP '' @ py_int_str (answer_status resp)))))"

definition get_authorizer :: "settings \<Rightarrow> rbac_post \<Rightarrow> principal \<Rightarrow> string \<Rightarrow> string option \<Rightarrow> decision" where
  "get_authorizer cfg post =
     (case authz_mode cfg of
        Mode_static \<Rightarrow> authorize_static cfg
      | Mode_external \<Rightarrow> authorize_external cfg post
      | Mode_none \<Rightarrow> authorize_all cfg)"

section \<open>Enforcement points\<close>

definition bearer_of :: "settings \<Rightarrow> string option \<Rightarrow> http_request \<Rightarrow> string option" where
  "bearer_of cfg authorization request =
     (if opt_truthy authorization then authorization
      else let cookie = map_of (req_cookies request) (authz_token_cookie cfg)
           in if opt_truthy cookie then Some (''Bearer '' @ the cookie) else None)"

datatype guard_result = Pass | HttpError int string

text \<open>The end of the guard, once the caller's principal is known.\<close>

definition check_principal ::
  "(principal \<Rightarrow> string \<Rightarrow> string option \<Rightarrow> decision) \<Rightarrow> principal \<Rightarrow> string \<Rightarrow> guard_result" where
  "check_principal authorize p action =
     (if \<not> authenticated p then HttpError 401 ''authentication required''
      else let d = authorize p action None
           in if \<not> allowed d then HttpError 403 (reason d) else Pass)"

definition require_action ::
  "settings \<Rightarrow> jwt_lib \<Rightarrow> rbac_post \<Rightarrow> string \<Rightarrow> http_request \<Rightarrow> string option \<Rightarrow> string option \<Rightarrow> guard_result" where
  "require_action cfg lib post action request authorization x_internal_key =
     (if authz_mode cfg = Mode_none then
        (if \<not> internal_key_ok cfg x_internal_key then HttpError 401 ''invalid internal key'' else Pass)
      else if opt_truthy (internal_api_key cfg) \<and> opt_truthy x_internal_key
              \<and> internal_key_ok cfg x_internal_key then Pass
      else check_principal (get_authorizer cfg post)
             (principal_from_bearer cfg lib (bearer_of cfg authorization request)) action)"

fun first_action :: "(string \<times> string) list \<Rightarrow> string \<Rightarrow> string" where
  "first_action [] path = ''ui:access''"
| "first_action ((pre, action) # rest) path =
     (if py_startswith path pre then action else first_action rest path)"

definition action_for_path :: "settings \<Rightarrow> string \<Rightarrow> string" where
  "action_for_path cfg path = first_action (authz_route_actions cfg) path"

record http_response =
  status :: int
  headers :: "(string, string) dict"

definition original_uri :: "http_request \<Rightarrow> string" where
  "original_uri request =
     str_or (map_of (req_headers request) ''x-original-uri'')
       (str_or (map_of (req_headers request) ''x-forwarded-uri'') ''/'')"

definition identity_headers :: "principal \<Rightarrow> string \<Rightarrow> decision \<Rightarrow> (string, string) dict" where
  "identity_headers p action d =
     [(''X-Obs-Action'', action),
      (''X-WEBAUTH-USER'', str_or (user_id p) ''anonymous''),
      (''X-WEBAUTH-ROLE'', str_or (grafana_role d) ''Viewer'')]
     @ (if opt_truthy (company_id p) then [(''X-Scope-OrgID'', the (company_id p))] else [])"

definition verify ::
  "settings \<Rightarrow> jwt_lib \<Rightarrow> rbac_post \<Rightarrow> http_request \<Rightarrow> string option \<Rightarrow> http_response" where
  "verify cfg lib post request authorization =
     (let action = action_for_path cfg (hd (py_split1 CHR ''?'' (original_uri request)));
          p = principal_from_bearer cfg lib (bearer_of cfg authorization request)
      in if \<not> authenticated p \<and> authz_mode cfg \<noteq> Mode_none then
           \<lparr>status = 401, headers = [(''X-Obs-Authz-Reason'', ''authentication required'')]\<rparr>
         else let d = get_authorizer cfg post p action None
              in if \<not> allowed d then
                   \<lparr>status = 403, headers = [(''X-Obs-Authz-Reason'', reason d)]\<rparr>
                 else \<lparr>status = 200, headers = identity_headers p action d\<rparr>)"

section \<open>The authorizer contract\<close>

text \<open>
  What the enforcement points rely on in RBAC mode: a caller without a verified token is never
  allowed.  A tenant-isolating authorizer also keeps a named tenant apart, save for callers with
  the wildcard.
\<close>

locale authorizer =
  fixes authorize :: "principal \<Rightarrow> string \<Rightarrow> string option \<Rightarrow> decision"
  assumes denies_anonymous: "\<not> authenticated p \<Longrightarrow> \<not> allowed (authorize p action tenant)"
begin

lemma check_principal_pass:
  "check_principal authorize p action = Pass \<longleftrightarrow> allowed (authorize p action None)"
  using denies_anonymous [of p action None] by (auto simp: check_principal_def Let_def)

lemma check_principal_error:
  "check_principal authorize p action = HttpError c r \<Longrightarrow> (c = 401 \<and> \<not> authenticated p) \<or> (c = 403 \<and> r = reason (authorize p action None))"
  by (auto simp: check_principal_def Let_def split: if_splits)

lemma allowed_authenticated: "allowed (authorize p action tenant) \<Longrightarrow> authenticated p"
  using denies_anonymous by blast

end

locale tenant_authorizer = authorizer +
  fixes wildcard :: "principal \<Rightarrow> bool"
  assumes isolates: "allowed (authorize p action (Some t)) \<Longrightarrow> \<not> wildcard p \<Longrightarrow> company_id p = Some t"
begin

lemma no_cross_tenant:
  assumes "\<not> wildcard p" "s \<noteq> t" "allowed (authorize p a (Some s))"
  shows "\<not> allowed (authorize p b (Some t))"
  using isolates [OF assms(3,1)] isolates [of p b t] assms(1,2) by auto

lemma tenantless_denied: "\<not> wildcard p \<Longrightarrow> company_id p = None \<Longrightarrow> \<not> allowed (authorize p a (Some t))"
  using isolates by fastforce

end

lemma deny_sel [simp]:
  "\<not> allowed (deny r)" "reason (deny r) = r" "grafana_role (deny r) = None"
  by (simp_all add: deny_def)

interpretation static: tenant_authorizer "authorize_static cfg" "\<lambda>p. WILDCARD \<in> set (granted cfg p)"
  for cfg
  by unfold_locales (auto simp: authorize_static_def split: if_splits)

interpretation external: authorizer "authorize_external cfg post" for cfg post
  by unfold_locales (simp add: authorize_external_def)

lemma rbac_authorizer:
  assumes "authz_mode cfg \<noteq> Mode_none"
  shows "authorizer (get_authorizer cfg post)"
  using assms static.authorizer_axioms [of cfg] external.authorizer_axioms [of cfg post]
  by (cases "authz_mode cfg") (auto simp: get_authorizer_def)

section \<open>Lemmas\<close>

lemma set_granted:
  "a \<in> set (granted cfg p) \<longleftrightarrow>
     (\<exists>r \<in> set (roles p). \<exists>ps. map_of (authz_role_permissions cfg) r = Some ps \<and> a \<in> set ps)"
proof -
  have "a \<in> set (case map_of m r of None \<Rightarrow> [] | Some ps \<Rightarrow> ps) \<longleftrightarrow> (\<exists>ps. map_of m r = Some ps \<and> a \<in> set ps)"
    for m :: "(string, string list) dict" and r
    by (cases "map_of m r") auto
  then show ?thesis by (simp add: granted_def)
qed

lemma granted_mono: "set (roles p) \<subseteq> set (roles q) \<Longrightarrow> set (granted cfg p) \<subseteq> set (granted cfg q)"
  unfolding subset_iff set_granted by blast

lemma static_allowed_iff:
  "allowed (authorize_static cfg p action tenant) \<longleftrightarrow>
     authenticated p \<and>
     (WILDCARD \<in> set (granted cfg p) \<or>
      (action \<in> set (granted cfg p) \<and> (tenant = None \<or> tenant = company_id p)))"
  by (auto simp: authorize_static_def)

lemma foldl_max_ge:
  "f m \<le> f (foldl (\<lambda>m y. if f y > f m then y else m) m xs)
   \<and> (\<forall>x \<in> set xs. f x \<le> f (foldl (\<lambda>m y. if f y > f m then y else m) m xs))
   \<and> foldl (\<lambda>m y. if f y > f m then y else m) m xs \<in> insert m (set xs)"
  for f :: "'a \<Rightarrow> nat"
proof (induction xs arbitrary: m)
  case (Cons x xs)
  show ?case
    using Cons.IH [of "if f x > f m then x else m"] by (auto split: if_splits)
qed simp

lemma py_max_by_Some:
  assumes "py_max_by f xs = Some m"
  shows "m \<in> set xs" "x \<in> set xs \<Longrightarrow> f x \<le> f m"
  using assms foldl_max_ge [of f] by (cases xs; force simp: py_max_by_def)+

lemma py_max_by_None: "py_max_by f xs = None \<longleftrightarrow> xs = []"
  by (cases xs) (auto simp: py_max_by_def)

lemma set_mapped_roles:
  "g \<in> set (mapped_roles cfg p) \<longleftrightarrow> (\<exists>r \<in> set (roles p). map_of (authz_grafana_roles cfg) r = Some g)"
  by (force simp: mapped_roles_def map_filter_def)

lemma external_allowedE:
  assumes "allowed (authorize_external cfg post p action tenant)"
  obtains resp body where "authenticated p" "opt_truthy (authz_url cfg)"
    "post (the (authz_url cfg)) (rbac_payload p action tenant) = Inr resp"
    "answer_status resp = 200" "answer_json resp = Inr (PDict body)"
    "map_of body ''allowed'' = Some (PBool True)"
  using assms
  by (auto simp: authorize_external_def decision_of_body_def
      split: if_splits sum.splits pyval.splits)

section \<open>Properties\<close>

text \<open>The static authorizer grants exactly what the role map says: an authenticated principal may act
  if one of its roles holds the wildcard, or if one of its roles holds the action and the tenant is
  unnamed or the principal's own.\<close>

theorem static_decision_iff:
  "allowed (authorize_static cfg p action tenant) \<longleftrightarrow>
     authenticated p \<and>
     ((\<exists>r \<in> set (roles p). \<exists>ps. map_of (authz_role_permissions cfg) r = Some ps \<and> ''*'' \<in> set ps) \<or>
      (\<exists>r \<in> set (roles p). \<exists>ps. map_of (authz_role_permissions cfg) r = Some ps \<and> action \<in> set ps)
       \<and> (tenant = None \<or> tenant = company_id p))"
  by (simp add: static_allowed_iff set_granted WILDCARD_def)

text \<open>C9: tenants are isolated.  A principal whose roles do not hold the wildcard is never allowed on two
  different tenants, and never on any named tenant if its token names none.\<close>

theorem static_tenant_isolation:
  assumes "WILDCARD \<notin> set (granted cfg p)" "allowed (authorize_static cfg p a (Some s))"
  shows "company_id p = Some s \<and> (t \<noteq> s \<longrightarrow> \<not> allowed (authorize_static cfg p b (Some t)))"
  using static.isolates [OF assms(2)] static.no_cross_tenant [of cfg p s t a b] assms by auto

theorem static_tenant_isolation_witness:
  "\<not> allowed (authorize_static default_settings
       \<lparr>company_id = Some ''acme'', user_id = None, authenticated = True, roles = [''obs-viewer'']\<rparr>
       ''logs:read'' (Some ''globex''))"
proof -
  let ?p = "\<lparr>company_id = Some ''acme'', user_id = None, authenticated = True, roles = [''obs-viewer'']\<rparr>"
  have "WILDCARD \<notin> set (granted default_settings ?p)"
    "allowed (authorize_static default_settings ?p ''logs:read'' (Some ''acme''))"
    by (simp_all add: granted_def default_settings_def WILDCARD_def authorize_static_def)
  from static_tenant_isolation [OF this, of "''globex''" "''logs:read''"] show ?thesis by simp
qed

text \<open>Roles only add rights.  Giving a principal more roles never turns an allowed action into a
  denied one, and the order or repetition of roles does not matter.\<close>

theorem static_roles_monotone:
  assumes "set (roles p) \<subseteq> set rs" "allowed (authorize_static cfg p action tenant)"
  shows "allowed (authorize_static cfg (p\<lparr>roles := rs\<rparr>) action tenant)"
  using granted_mono [of p "p\<lparr>roles := rs\<rparr>" cfg] assms by (auto simp: static_allowed_iff)

theorem static_roles_monotone_witness:
  "allowed (authorize_static default_settings
      (\<lparr>company_id = Some ''acme'', user_id = None, authenticated = True, roles = [''obs-viewer'']\<rparr>
        \<lparr>roles := [''intern'', ''obs-viewer'', ''obs-viewer'']\<rparr>) ''logs:read'' None)"
  by (rule static_roles_monotone) (simp_all add: authorize_static_def granted_def default_settings_def WILDCARD_def)

text \<open>C10: the external authorizer fails closed.  It allows exactly when the caller is authenticated, a
  service URL is configured, and the service answered HTTP 200 with a JSON object whose \<open>allowed\<close>
  is the literal \<open>true\<close>; an exception, any other status, a non-object body and any other value of
  \<open>allowed\<close> deny.\<close>

theorem external_fails_closed:
  "allowed (authorize_external cfg post p action tenant) \<longleftrightarrow>
     authenticated p \<and> opt_truthy (authz_url cfg) \<and>
     (\<exists>resp body. post (the (authz_url cfg)) (rbac_payload p action tenant) = Inr resp
        \<and> answer_status resp = 200 \<and> answer_json resp = Inr (PDict body)
        \<and> map_of body ''allowed'' = Some (PBool True))"
  by (auto elim!: external_allowedE) (simp add: authorize_external_def decision_of_body_def)

text \<open>C11: the route guard in RBAC mode.  With RBAC on, a guarded route runs only for the configured
  internal key or for an authenticated principal the configured authorizer allows; every other
  caller gets 401 (no verified token) or 403 (denied).\<close>

theorem require_action_rbac:
  assumes "authz_mode cfg \<noteq> Mode_none"
  shows "let p = principal_from_bearer cfg lib (bearer_of cfg authorization request);
             d = get_authorizer cfg post p action None;
             key = opt_truthy (internal_api_key cfg) \<and> x_internal_key = internal_api_key cfg
         in (require_action cfg lib post action request authorization x_internal_key = Pass
               \<longleftrightarrow> key \<or> (authenticated p \<and> allowed d))
          \<and> (\<not> key \<and> \<not> authenticated p \<longrightarrow>
               require_action cfg lib post action request authorization x_internal_key
                 = HttpError 401 ''authentication required'')
          \<and> (\<not> key \<and> authenticated p \<and> \<not> allowed d \<longrightarrow>
               require_action cfg lib post action request authorization x_internal_key
                 = HttpError 403 (reason d))"
  using assms
  by (auto simp: require_action_def internal_key_ok_def check_principal_def Let_def)

definition no_rbac_post :: rbac_post where
  "no_rbac_post url payload = Inl ''ConnectError''"

theorem require_action_rbac_witness:
  "require_action (default_settings\<lparr>authz_mode := Mode_static\<rparr>) reject_all_jwt no_rbac_post
     ''status:read'' empty_request None (Some ''guess'') = HttpError 401 ''authentication required''"
  using require_action_rbac [of "default_settings\<lparr>authz_mode := Mode_static\<rparr>" reject_all_jwt None
      empty_request no_rbac_post "''status:read''" "Some ''guess''"]
  by (simp add: default_settings_def empty_request_def bearer_of_def principal_from_bearer_def is_bearer_def)

text \<open>Without RBAC only the internal key guards a route: it runs exactly when no key is configured
  or the caller sent it, and a token plays no part.\<close>

theorem require_action_none:
  assumes "authz_mode cfg = Mode_none"
  shows "require_action cfg lib post action request authorization x_internal_key =
    (if opt_truthy (internal_api_key cfg) \<and> x_internal_key \<noteq> internal_api_key cfg
     then HttpError 401 ''invalid internal key'' else Pass)"
  using assms by (auto simp: require_action_def internal_key_ok_def)

theorem require_action_none_witness:
  "require_action (default_settings\<lparr>internal_api_key := Some ''k''\<rparr>) reject_all_jwt no_rbac_post
     ''status:read'' empty_request (Some ''Bearer x'') None = HttpError 401 ''invalid internal key''"
  by (subst require_action_none) (simp_all add: default_settings_def)

text \<open>The forward-auth endpoint.  With RBAC on it answers 200 exactly for an authenticated principal
  allowed the action of the requested path; the identity headers are then the verified token's, with
  the tenant header present only if the token names a tenant.  An unauthenticated caller gets 401
  and a denied one 403, and neither gets an identity header.\<close>

theorem verify_outcome:
  assumes "authz_mode cfg \<noteq> Mode_none"
  shows "let p = principal_from_bearer cfg lib (bearer_of cfg authorization request);
             action = action_for_path cfg (takeWhile (\<lambda>c. c \<noteq> CHR ''?'') (original_uri request));
             d = get_authorizer cfg post p action None;
             r = verify cfg lib post request authorization
         in status r = (if allowed d then 200 else if authenticated p then 403 else 401)
          \<and> headers r = (if allowed d then identity_headers p action d
                         else [(''X-Obs-Authz-Reason'',
                                if authenticated p then reason d else ''authentication required'')])"
  using authorizer.allowed_authenticated [OF rbac_authorizer [OF assms]] assms
  by (auto simp: verify_def Let_def py_split1_hd)

theorem verify_outcome_witness:
  "status (verify (default_settings\<lparr>authz_mode := Mode_external\<rparr>) reject_all_jwt no_rbac_post empty_request None) = 401"
  using verify_outcome [of "default_settings\<lparr>authz_mode := Mode_external\<rparr>" reject_all_jwt None empty_request no_rbac_post]
  by (simp add: Let_def default_settings_def empty_request_def bearer_of_def principal_from_bearer_def
      is_bearer_def get_authorizer_def authorize_external_def)

text \<open>The Grafana role is the highest one mapped.  When the role map gives a principal any Grafana
  role, the session gets one of them and none of them ranks higher; otherwise there is none.\<close>

theorem grafana_role_highest:
  "case grafana_role_of cfg p of
     None \<Rightarrow> mapped_roles cfg p = []
   | Some g \<Rightarrow> g \<in> set (mapped_roles cfg p) \<and> list_all (\<lambda>g'. role_rank g' \<le> role_rank g) (mapped_roles cfg p)"
  using py_max_by_Some [of role_rank "mapped_roles cfg p"] py_max_by_None [of role_rank "mapped_roles cfg p"]
  by (auto simp: grafana_role_of_def list_all_iff split: option.splits)

text \<open>The action of a path is decided on its raw text.  With the default routes, every path that
  does not literally start with \<open>/loki/\<close>, \<open>/tempo/\<close> or \<open>/prometheus/\<close> asks for \<open>ui:access\<close> only; so
  do paths such as \<open>//loki/\<close> or \<open>/x/../loki/\<close>, which a proxy that normalises paths before routing
  (nginx does) still routes to Loki.\<close>

theorem raw_path_action:
  assumes "\<not> py_startswith path ''/loki/''" "\<not> py_startswith path ''/tempo/''"
    "\<not> py_startswith path ''/prometheus/''"
  shows "action_for_path default_settings path = ''ui:access''"
  using assms by (simp add: action_for_path_def default_settings_def)

theorem raw_path_action_witness:
  "action_for_path default_settings ''//loki/api/v1/query'' = ''ui:access''
   \<and> action_for_path default_settings ''/x/../loki/api/v1/query'' = ''ui:access''
   \<and> action_for_path default_settings ''/loki/api/v1/query'' = ''logs:read''"
proof (intro conjI)
  show "action_for_path default_settings ''//loki/api/v1/query'' = ''ui:access''"
    "action_for_path default_settings ''/x/../loki/api/v1/query'' = ''ui:access''"
    by (rule raw_path_action; simp add: py_startswith_def)+
qed (simp add: action_for_path_def default_settings_def py_startswith_def)

end
