(* ===== verification/GwHealth.thy ===== *)
theory GwHealth
  imports GwAuthz GwStack
begin

text \<open>
  Fleet health aggregation (\<open>obs_gateway/health.py\<close>): the probe of one configured service, the
  rollup of \<open>GET /status\<close>, and \<open>GET /status/stack\<close> over the monitor's snapshot, both behind the
  route guard for \<open>status:read\<close>.  What a URL answers, an exception's class name or a status code, is the
  argument \<open>fetch\<close>.
\<close>

record service_report =
  service :: string
  report_ok :: bool
  outcome :: "string + int"

definition fleet_url :: "settings \<Rightarrow> string \<Rightarrow> string" where
  "fleet_url cfg base_url = py_rstrip_char CHR ''/'' base_url @ health_path cfg"

definition fleet_probe :: "settings \<Rightarrow> (string \<Rightarrow> string + int) \<Rightarrow> string \<Rightarrow> string \<Rightarrow> service_report" where
  "fleet_probe cfg fetch name base_url =
     (case fetch (fleet_url cfg base_url) of
        Inl exc \<Rightarrow> \<lparr>service = name, report_ok = False, outcome = Inl exc\<rparr>
      | Inr sc \<Rightarrow> \<lparr>service = name, report_ok = (sc = 200), outcome = Inr sc\<rparr>)"

record fleet_status =
  fleet_code :: int
  fleet_rollup :: string
  fleet_healthy :: nat
  fleet_total :: nat
  fleet_services :: "service_report list"
  fleet_note :: "string option"

definition fleet_status_of :: "settings \<Rightarrow> (string \<Rightarrow> string + int) \<Rightarrow> fleet_status" where
  "fleet_status_of cfg fetch =
     (if health_targets cfg = [] then
        \<lparr>fleet_code = 200, fleet_rollup = ''ok'', fleet_healthy = 0, fleet_total = 0, fleet_services = [],
         fleet_note = Some ''no targets configured''\<rparr>
      else let results = map (\<lambda>(name, url). fleet_probe cfg fetch name url) (health_targets cfg);
               healthy_count = length (filter report_ok results)
           in \<lparr>fleet_code = (if healthy_count = length results then 200 else 503),
               fleet_rollup = (if healthy_count = length results then ''ok'' else ''degraded''),
               fleet_healthy = healthy_count, fleet_total = length results,
               fleet_services = sort_key service results, fleet_note = None\<rparr>)"

definition stack_status :: "settings \<Rightarrow> monitor \<Rightarrow> int \<times> stack_snapshot" where
  "stack_status cfg mon =
     (let s = snapshot cfg mon in (if snap_status s = ''degraded'' then 503 else 200, s))"

text \<open>A guarded route: the handler runs only when the guard passes.\<close>

datatype 'a guarded = Refused int string | Served 'a

definition guarded_route ::
  "settings \<Rightarrow> jwt_lib \<Rightarrow> rbac_post \<Rightarrow> string \<Rightarrow> http_request \<Rightarrow> string option \<Rightarrow> string option \<Rightarrow> 'a \<Rightarrow> 'a guarded" where
  "guarded_route cfg lib post action request authorization key body =
     (case require_action cfg lib post action request authorization key of
        Pass \<Rightarrow> Served body
      | HttpError c d \<Rightarrow> Refused c d)"

definition get_status ::
  "settings \<Rightarrow> jwt_lib \<Rightarrow> rbac_post \<Rightarrow> (string \<Rightarrow> string + int) \<Rightarrow> http_request \<Rightarrow> string option \<Rightarrow> string option
   \<Rightarrow> fleet_status guarded" where
  "get_status cfg lib post fetch request authorization key =
     guarded_route cfg lib post ''status:read'' request authorization key (fleet_status_of cfg fetch)"

definition get_stack_status ::
  "settings \<Rightarrow> jwt_lib \<Rightarrow> rbac_post \<Rightarrow> monitor \<Rightarrow> http_request \<Rightarrow> string option \<Rightarrow> string option
   \<Rightarrow> (int \<times> stack_snapshot) guarded" where
  "get_stack_status cfg lib post mon request authorization key =
     guarded_route cfg lib post ''status:read'' request authorization key (stack_status cfg mon)"

section \<open>Lemmas\<close>

lemma length_filter_all: "length (filter P xs) = length xs \<longleftrightarrow> list_all P xs"
  by (induction xs) (auto simp: le_imp_less_Suc less_imp_neq dest: length_filter_less
      intro: order_le_less_trans [OF length_filter_le])

lemma fleet_probe_ok: "report_ok (fleet_probe cfg fetch name url) \<longleftrightarrow> fetch (fleet_url cfg url) = Inr 200"
  by (auto simp: fleet_probe_def split: sum.splits)

lemma fleet_probe_service [simp]: "service (fleet_probe cfg fetch name url) = name"
  by (auto simp: fleet_probe_def split: sum.splits)

lemma snapshot_degraded: "snap_status (snapshot cfg mon) = ''degraded'' \<longleftrightarrow> (\<exists>h \<in> snd ` set (components mon). \<not> healthy h)"
proof -
  have "list_all healthy (sort_key component (map snd (components mon))) \<longleftrightarrow> (\<forall>h \<in> snd ` set (components mon). healthy h)"
    by (simp add: list_all_iff)
  moreover have "sort_key component (map snd (components mon)) = [] \<longleftrightarrow> components mon = []"
    by (metis map_is_Nil_conv set_empty set_sort)
  ultimately show ?thesis by (auto simp: snapshot_def Let_def)
qed

section \<open>Properties\<close>

text \<open>The fleet rollup.  \<open>/status\<close> answers 200 exactly when every configured service answered 200
  at its base URL, trailing slashes dropped, plus the health path, and 503 otherwise; the rollup text says the same,
  the counts are the numbers of healthy and of configured services, and the list has one report per
  service, sorted by name.\<close>

theorem fleet_rollup_exact:
  "let s = fleet_status_of cfg fetch;
       up = (\<lambda>(name :: string, url). fetch (py_rstrip_char CHR ''/'' url @ health_path cfg) = Inr 200)
   in fleet_code s = (if list_all up (health_targets cfg) then 200 else 503)
      \<and> fleet_rollup s = (if list_all up (health_targets cfg) then ''ok'' else ''degraded'')
      \<and> fleet_healthy s = length (filter up (health_targets cfg))
      \<and> fleet_total s = length (health_targets cfg)
      \<and> sorted (map service (fleet_services s))
      \<and> set (map (\<lambda>r. (service r, report_ok r)) (fleet_services s))
         = set (map (\<lambda>(name, url). (name, up (name, url))) (health_targets cfg))"
proof (cases "health_targets cfg = []")
  case False
  let ?res = "map (\<lambda>(name, url). fleet_probe cfg fetch name url) (health_targets cfg)"
  let ?up = "\<lambda>(name :: string, url). fetch (py_rstrip_char CHR ''/'' url @ health_path cfg) = Inr 200"
  have comp: "report_ok \<circ> (\<lambda>(name, url). fleet_probe cfg fetch name url) = ?up"
    by (auto simp: fun_eq_iff fleet_probe_ok fleet_url_def)
  have "length (filter report_ok ?res) = length (filter ?up (health_targets cfg))"
    by (simp add: filter_map comp)
  moreover have "list_all report_ok ?res \<longleftrightarrow> list_all ?up (health_targets cfg)"
    by (simp add: list.pred_map comp)
  moreover have "set (map (\<lambda>r. (service r, report_ok r)) ?res) = set (map (\<lambda>(name, url). (name, ?up (name, url))) (health_targets cfg))"
    by (force simp: fleet_probe_ok fleet_url_def)
  moreover have "length (filter report_ok ?res) = length ?res \<longleftrightarrow> list_all report_ok ?res"
    by (rule length_filter_all)
  ultimately show ?thesis
    using False by (simp add: fleet_status_of_def Let_def image_image)
qed (simp add: fleet_status_of_def)

text \<open>The stack status is honest.  After the first check \<open>/status/stack\<close> answers 503 exactly when some
  monitored component did not just answer 2xx; before any check it answers 200.\<close>

theorem stack_status_after_check:
  assumes "wf_dict (stack_targets cfg)"
  shows "fst (stack_status cfg new_monitor) = 200
    \<and> fst (stack_status cfg (fst (check_once cfg env (new_monitor, fb)))) =
        (if list_all (\<lambda>(name, url). case get_url env url of Inl exc \<Rightarrow> False | Inr sc \<Rightarrow> 200 \<le> sc \<and> sc < 300) (stack_targets cfg)
         then 200 else 503)"
proof
  let ?mon = "fst (check_once cfg env (new_monitor, fb))"
  have look: "map_of (components ?mon) c = map_option (\<lambda>url. probe c (get_url env url) (probe_time env c)) (map_of (stack_targets cfg) c)" for c
    by (simp add: check_once_components [OF assms] new_monitor_def split: option.splits)
  have wf: "distinct (keys (components ?mon))"
    using check_once_wf [OF components_ok_new, of cfg env fb] by (simp add: wf_dict_def)
  have mem: "h \<in> snd ` set (components ?mon) \<longleftrightarrow> (\<exists>c. map_of (components ?mon) c = Some h)" for h
    using wf by (force simp: map_of_eq_Some_iff)
  have target: "map_of (stack_targets cfg) c = Some url \<longleftrightarrow> (c, url) \<in> set (stack_targets cfg)" for c url
    using assms by (simp add: wf_dict_def map_of_eq_Some_iff)
  have seen: "h \<in> snd ` set (components ?mon)
      \<longleftrightarrow> (\<exists>c url. (c, url) \<in> set (stack_targets cfg) \<and> probe c (get_url env url) (probe_time env c) = h)" for h
    unfolding mem look target [symmetric] by simp
  have "(\<exists>h \<in> snd ` set (components ?mon). \<not> healthy h)
      \<longleftrightarrow> (\<exists>(c, url) \<in> set (stack_targets cfg). \<not> healthy (probe c (get_url env url) (probe_time env c)))"
    unfolding Bex_def seen by auto
  moreover have "healthy (probe c o' t) \<longleftrightarrow> (case o' of Inl exc \<Rightarrow> False | Inr sc \<Rightarrow> 200 \<le> sc \<and> sc < 300)" for c o' t
    by (simp add: probe_def split: sum.splits)
  ultimately show "fst (stack_status cfg ?mon) =
        (if list_all (\<lambda>(name, url). case get_url env url of Inl exc \<Rightarrow> False | Inr sc \<Rightarrow> 200 \<le> sc \<and> sc < 300) (stack_targets cfg)
         then 200 else 503)"
    by (simp add: stack_status_def Let_def snapshot_degraded list_all_iff case_prod_beta)
qed (simp add: stack_status_def snapshot_def new_monitor_def)

theorem stack_status_after_check_witness:
  "fst (stack_status default_settings (fst (check_once default_settings outage_env (new_monitor, new_fallback)))) = 503"
proof -
  have "wf_dict (stack_targets default_settings)" by (simp add: default_settings_def wf_dict_def)
  from stack_status_after_check [OF this, of outage_env new_fallback] show ?thesis
    by (simp add: default_settings_def outage_env_def)
qed

end
