(* ===== verification/GwApp.thy ===== *)
theory GwApp
  imports GwIngest GwHealth
begin

text \<open>
  The application around the routes (\<open>obs_gateway/main.py\<close> and \<open>metrics.py\<close>): the body-size limit
  over ASGI messages, an ingest request behind it, the metrics middleware, the middleware order with the CORS options, the
  lifespan, and the two liveness endpoints.
\<close>

section \<open>The body-size limit\<close>

text \<open>A message the server hands to the application; \<open>Http_request None\<close> has no \<open>body\<close> key.\<close>

datatype asgi_message = Http_request "string option" | Other_message string

datatype asgi_error = HttpException int

definition body_of :: "asgi_message \<Rightarrow> string" where
  "body_of m = (case m of Http_request (Some b) \<Rightarrow> b | _ \<Rightarrow> [])"

text \<open>One call of \<open>limited_receive\<close>, with the count of bytes received so far.\<close>

definition limited_receive :: "int \<Rightarrow> asgi_message \<Rightarrow> int \<Rightarrow> (asgi_error + asgi_message) \<times> int" where
  "limited_receive limit message received =
     (case message of
        Http_request b \<Rightarrow>
          (let received' = received + int (length (body_of message))
           in if received' > limit then (Inl (HttpException 413), received') else (Inr message, received'))
      | Other_message t \<Rightarrow> (Inr message, received))"

text \<open>Successive calls, the count kept across them even when the application swallows an exception.\<close>

fun receive_run :: "int \<Rightarrow> asgi_message list \<Rightarrow> int \<Rightarrow> (asgi_error + asgi_message) list" where
  "receive_run limit [] received = []"
| "receive_run limit (m # ms) received =
     (let (r, received') = limited_receive limit m received in r # receive_run limit ms received')"

text \<open>
  \<open>int(declared)\<close> of a string of digits: Python refuses more than 4300 of them.  A duplicated
  header: \<open>dict(headers)\<close> keeps the last.
\<close>

definition int_of_digits :: "string \<Rightarrow> py_exn + nat" where
  "int_of_digits s = (if length s > INT_MAX_STR_DIGITS then Inl ValueError else Inr (dec_value s))"

datatype body_outcome =
    Not_http                                        \<comment> \<open>passed to the application with its own \<open>receive\<close>\<close>
  | Too_large int                                   \<comment> \<open>answered at once with this status\<close>
  | Raises py_exn
  | Limited "(asgi_error + asgi_message) list"      \<comment> \<open>what the application's calls of \<open>receive\<close> give\<close>

definition body_size_limit ::
  "settings \<Rightarrow> string \<Rightarrow> (string, string) dict \<Rightarrow> asgi_message list \<Rightarrow> body_outcome" where
  "body_size_limit cfg scope_type hdrs messages =
     (if scope_type \<noteq> ''http'' then Not_http
      else let limit = max_request_bytes cfg;
               served = Limited (receive_run limit messages 0)
           in case map_of (rev hdrs) ''content-length'' of
                None \<Rightarrow> served
              | Some declared \<Rightarrow>
                  (if \<not> bytes_isdigit declared then served
                   else case int_of_digits declared of
                          Inl e \<Rightarrow> Raises e
                        | Inr n \<Rightarrow> (if int n > limit then Too_large 413 else served)))"

text \<open>The bytes that reach the application.\<close>

definition delivered :: "(asgi_error + asgi_message) list \<Rightarrow> int" where
  "delivered rs = int (sum_list (map (\<lambda>r. case r of Inl e \<Rightarrow> 0 | Inr m \<Rightarrow> length (body_of m)) rs))"

definition total_body :: "asgi_message list \<Rightarrow> int" where
  "total_body ms = int (sum_list (map (\<lambda>m. length (body_of m)) ms))"

lemma delivered_simps [simp]:
  "delivered [] = 0" "delivered (Inl e # rs) = delivered rs"
  "delivered (Inr m # rs) = int (length (body_of m)) + delivered rs"
  by (simp_all add: delivered_def)

lemma total_body_simps [simp]:
  "total_body [] = 0" "total_body (m # ms) = int (length (body_of m)) + total_body ms"
  by (simp_all add: total_body_def)

lemma total_body_nonneg: "0 \<le> total_body ms"
  by (simp add: total_body_def)

lemma delivered_bound: "delivered (receive_run limit ms received) \<le> max 0 (limit - received)"
proof (induction ms arbitrary: received)
  case (Cons m ms)
  show ?case
    using Cons [of received] Cons [of "received + int (length (body_of m))"]
    by (cases m) (auto simp: limited_receive_def Let_def body_of_def split: option.splits)
qed simp

lemma receive_run_small: "received + total_body ms \<le> limit \<Longrightarrow> receive_run limit ms received = map Inr ms"
proof (induction ms arbitrary: received)
  case (Cons m ms)
  then show ?case
    using total_body_nonneg [of ms] by (cases m) (auto simp: limited_receive_def Let_def body_of_def split: option.splits)
qed simp

section \<open>Metrics\<close>

text \<open>\<open>http_request_duration_seconds\<close>: the observations in order, with their labels.\<close>

record duration =
  d_method :: string
  d_route :: string
  d_status :: string
  d_seconds :: time

definition record_request ::
  "string \<Rightarrow> string option \<Rightarrow> time \<Rightarrow> time \<Rightarrow> string + int \<Rightarrow> duration list \<Rightarrow> (string + int) \<times> duration list" where
  "record_request request_method route start finish result observations =
     (case result of
        Inl exc \<Rightarrow> (Inl exc, observations)
      | Inr code_ \<Rightarrow>
          (Inr code_,
           observations @
             [\<lparr>d_method = request_method, d_route = (case route of None \<Rightarrow> ''unmatched'' | Some path \<Rightarrow> path),
               d_status = py_int_str code_, d_seconds = finish - start\<rparr>]))"

section \<open>An ingest request through the application\<close>

text \<open>
  \<open>POST /api/telemetry/v1/ingest\<close> behind the body limit.  \<open>fetch\<close> is what the framework makes of the messages it
  receives: the exception one of them raised, or the parsed JSON body (\<^const>\<open>None\<close> when it is not JSON,
  answered 422).
\<close>

type_synonym body_reader = "(asgi_error + asgi_message) list \<Rightarrow> asgi_error + pyval option"

definition serve_ingest ::
  "settings \<Rightarrow> body_reader \<Rightarrow> jwt_lib \<Rightarrow> (string \<Rightarrow> string) \<Rightarrow> (telemetry_event \<Rightarrow> nat) \<Rightarrow> time \<Rightarrow> (nat \<Rightarrow> event_env)
   \<Rightarrow> (string, string) dict \<Rightarrow> asgi_message list \<Rightarrow> http_request \<Rightarrow> string option \<Rightarrow> gateway \<Rightarrow> answer \<times> gateway" where
  "serve_ingest cfg fetch lib sha dump_len now envs hdrs messages request authorization g =
     (let handle = (\<lambda>received. case fetch received of
            Inl (HttpException c) \<Rightarrow> (Status c, g)
          | Inr None \<Rightarrow> (Status 422, g)
          | Inr (Some body) \<Rightarrow> post_ingest cfg lib sha dump_len now envs body request authorization g)
      in case body_size_limit cfg ''http'' hdrs messages of
           Too_large c \<Rightarrow> (Status c, g)
         | Raises e \<Rightarrow> (Raised e, g)
         | Limited rs \<Rightarrow> handle rs
         | Not_http \<Rightarrow> handle (map Inr messages))"

text \<open>What the body limit relies on: the framework lets an exception of \<open>receive\<close> through.\<close>

definition raises_through :: "body_reader \<Rightarrow> bool" where
  "raises_through fetch \<longleftrightarrow> (\<forall>rs e. Inl e \<in> set rs \<longrightarrow> (\<exists>e'. Inl e' \<in> set rs \<and> fetch rs = Inl e'))"

text \<open>A reader for the example: the first exception, else always the same body.\<close>

definition boom_reader :: body_reader where
  "boom_reader rs = (case filter isl rs of Inl e # _ \<Rightarrow> Inl e | _ \<Rightarrow> Inr (Some boom_body))"

lemma boom_reader_raises: "raises_through boom_reader"
  unfolding raises_through_def
proof (intro allI impI)
  fix rs :: "(asgi_error + asgi_message) list" and e
  assume "Inl e \<in> set rs"
  then have "filter isl rs \<noteq> []" by (force simp: filter_empty_conv)
  then obtain r rs' where f: "filter isl rs = r # rs'" by (cases "filter isl rs") auto
  then have "r \<in> set (filter isl rs)" by simp
  then have "r \<in> set rs" "isl r" by simp_all
  then show "\<exists>e'. Inl e' \<in> set rs \<and> boom_reader rs = Inl e'"
    using f by (intro exI [of _ "projl r"]) (auto simp: boom_reader_def isl_def)
qed

lemma receive_run_errors: "Inl e \<in> set (receive_run limit ms received) \<Longrightarrow> e = HttpException 413"
proof (induction ms arbitrary: received)
  case (Cons m ms)
  then show ?case by (cases m) (auto simp: limited_receive_def Let_def split: if_splits)
qed simp

lemma receive_run_over: "limit < received + total_body ms \<Longrightarrow> received \<le> limit \<Longrightarrow> \<exists>e. Inl e \<in> set (receive_run limit ms received)"
proof (induction ms arbitrary: received)
  case (Cons m ms)
  then show ?case
    using Cons.IH [of received] Cons.IH [of "received + int (length (body_of m))"]
    by (cases m) (auto simp: limited_receive_def Let_def body_of_def split: option.splits)
qed simp

section \<open>Middleware, lifespan, liveness\<close>

record cors_options =
  allow_origins :: "string list"
  allow_credentials :: bool
  allow_methods :: "string list"
  allow_headers :: "string list"

datatype middleware = Cors cors_options | Metrics | Body_limit

text \<open>Outermost first.\<close>

definition middleware_stack :: "settings \<Rightarrow> middleware list" where
  "middleware_stack cfg =
     (if cors_allow_origins cfg \<noteq> []
      then [Cors \<lparr>allow_origins = cors_allow_origins cfg, allow_credentials = False,
                  allow_methods = [''POST'', ''GET'', ''OPTIONS''], allow_headers = [''*'']\<rparr>] else [])
     @ [Metrics, Body_limit]"

definition monitor_started :: "settings \<Rightarrow> bool" where
  "monitor_started cfg = (stack_targets cfg \<noteq> [])"

text \<open>The end of \<open>lifespan\<close>: the providers flushed, in order, and the gateway left behind.\<close>

definition app_shutdown :: "gateway \<Rightarrow> provider list \<times> gateway" where
  "app_shutdown g =
     (let (flushed, em) = emitter_shutdown (g_emitter g)
      in (flushed, g\<lparr>g_emitter := em, g_fallback := fallback_close (g_fallback g)\<rparr>))"

definition liveness :: "settings \<Rightarrow> int \<times> pyval" where
  "liveness cfg = (200, PDict [(''status'', PStr ''ok''), (''service'', PStr (service_name cfg))])"

section \<open>Properties\<close>

text \<open>C18: the body limit cannot be passed.  However the body is split into messages, whatever the
  declared length, and even when the application swallows the exception and reads on, no more than
  \<open>max_request_bytes\<close> bytes of an HTTP request reach it.\<close>

theorem body_limit_bound:
  assumes "body_size_limit cfg ''http'' hdrs messages = Limited rs" "0 \<le> max_request_bytes cfg"
  shows "delivered rs \<le> max_request_bytes cfg"
proof -
  have "rs = receive_run (max_request_bytes cfg) messages 0"
    using assms(1) by (auto simp: body_size_limit_def Let_def split: option.splits if_splits sum.splits)
  then show ?thesis using delivered_bound [of "max_request_bytes cfg" messages 0] assms(2) by simp
qed

theorem body_limit_bound_witness:
  "body_size_limit (default_settings\<lparr>max_event_bytes := 4, max_batch_events := 1\<rparr>) ''http'' [(''content-length'', ''2'')]
     [Http_request (Some ''abc''), Http_request (Some ''de''), Http_request (Some ''f'')]
   = Limited [Inr (Http_request (Some ''abc'')), Inl (HttpException 413), Inl (HttpException 413)]
   \<and> delivered [Inr (Http_request (Some ''abc'')), Inl (HttpException 413), Inl (HttpException 413)]
       \<le> max_request_bytes (default_settings\<lparr>max_event_bytes := 4, max_batch_events := 1\<rparr>)"
proof
  let ?cfg = "default_settings\<lparr>max_event_bytes := 4, max_batch_events := 1\<rparr>"
  show run: "body_size_limit ?cfg ''http'' [(''content-length'', ''2'')]
     [Http_request (Some ''abc''), Http_request (Some ''de''), Http_request (Some ''f'')]
   = Limited [Inr (Http_request (Some ''abc'')), Inl (HttpException 413), Inl (HttpException 413)]"
    by (simp add: body_size_limit_def bytes_isdigit_def is_digit_def int_of_digits_def INT_MAX_STR_DIGITS_def
        dec_value_def max_request_bytes_def limited_receive_def body_of_def)
  show "delivered [Inr (Http_request (Some ''abc'')), Inl (HttpException 413), Inl (HttpException 413)] \<le> max_request_bytes ?cfg"
    by (rule body_limit_bound [OF run]) (simp add: max_request_bytes_def)
qed

text \<open>The body limit lets fitting requests through unchanged.  A request whose messages together hold at most
  \<open>max_request_bytes\<close> bytes, and whose declared length, if it is a number at all, is at most that and has
  at most 4300 digits, reaches the application message by message as sent; a larger declared number is
  answered 413 before any message is read.\<close>

theorem body_limit_transparent:
  assumes "total_body messages \<le> max_request_bytes cfg"
  shows "body_size_limit cfg ''http'' hdrs messages =
    (case map_of (rev hdrs) ''content-length'' of
       Some declared \<Rightarrow>
         (if bytes_isdigit declared \<and> length declared > INT_MAX_STR_DIGITS then Raises ValueError
          else if bytes_isdigit declared \<and> int (dec_value declared) > max_request_bytes cfg then Too_large 413
          else Limited (map Inr messages))
     | None \<Rightarrow> Limited (map Inr messages))"
  using receive_run_small [of 0 messages "max_request_bytes cfg"] assms
  by (auto simp: body_size_limit_def int_of_digits_def Let_def split: option.splits)

theorem body_limit_transparent_witness:
  "body_size_limit default_settings ''http'' [(''content-length'', ''3'')] [Http_request (Some ''abc''), Other_message ''http.disconnect'']
   = Limited [Inr (Http_request (Some ''abc'')), Inr (Other_message ''http.disconnect'')]"
proof -
  have "total_body [Http_request (Some ''abc''), Other_message ''http.disconnect''] \<le> max_request_bytes default_settings"
    by (simp add: body_of_def max_request_bytes_def default_settings_def)
  from body_limit_transparent [OF this, of "[(''content-length'', ''3'')]"] show ?thesis
    by (simp add: INT_MAX_STR_DIGITS_def dec_value_def max_request_bytes_def default_settings_def)
qed

text \<open>C22: an oversized request never reaches the handler.  When the messages hold more than \<open>max_request_bytes\<close> bytes
  together, whether a length was declared or not, or the declared length is larger, the gateway's state is what it was and
  the ingest request is answered 413; only a declared number of more than 4300 digits, which \<open>int\<close> refuses to
  convert, ends in \<open>ValueError\<close> instead of that answer.
\<close>

theorem oversized_refused:
  assumes "raises_through fetch" and "0 \<le> max_request_bytes cfg"
    and "max_request_bytes cfg < total_body messages
      \<or> (\<exists>d. map_of (rev hdrs) ''content-length'' = Some d \<and> bytes_isdigit d \<and> max_request_bytes cfg < int (dec_value d))"
  shows "serve_ingest cfg fetch lib sha dump_len now envs hdrs messages request authz g =
    (case map_of (rev hdrs) ''content-length'' of
       Some d \<Rightarrow> if bytes_isdigit d \<and> length d > INT_MAX_STR_DIGITS then (Raised ValueError, g) else (Status 413, g)
     | None \<Rightarrow> (Status 413, g))"
proof -
  let ?rs = "receive_run (max_request_bytes cfg) messages 0"
  have "fetch ?rs = Inl (HttpException 413)" if "max_request_bytes cfg < total_body messages"
    using receive_run_over [of "max_request_bytes cfg" 0 messages] that assms(1,2) receive_run_errors
    unfolding raises_through_def by (metis add_0)
  then show ?thesis
    using assms(3) by (auto simp: serve_ingest_def body_size_limit_def int_of_digits_def Let_def split: option.splits)
qed

theorem oversized_refused_witness:
  "serve_ingest (default_settings\<lparr>max_event_bytes := 4, max_batch_events := 1\<rparr>)
     boom_reader reject_all_jwt (\<lambda>s. s) (\<lambda>ev. 40) 0
     (\<lambda>i. quiet_env) [(''content-length'', ''2'')] [Http_request (Some ''abc''), Http_request (Some ''de'')] empty_request None empty_gateway
   = (Status 413, empty_gateway)
   \<and> serve_ingest (default_settings\<lparr>max_event_bytes := 4, max_batch_events := 1\<rparr>)
     boom_reader reject_all_jwt (\<lambda>s. s) (\<lambda>ev. 40) 0
     (\<lambda>i. quiet_env) [(''content-length'', replicate 4301 CHR ''9'')] [Http_request (Some ''abcde'')] empty_request None empty_gateway
   = (Raised ValueError, empty_gateway)"
proof -
  let ?cfg = "default_settings\<lparr>max_event_bytes := 4, max_batch_events := 1\<rparr>"
  have max: "max_request_bytes ?cfg = 4" by (simp add: max_request_bytes_def)
  have digits: "bytes_isdigit (replicate 4301 CHR ''9'')"
    unfolding bytes_isdigit_def by (simp add: list_all_iff is_digit_def)
  have "max_request_bytes ?cfg < total_body [Http_request (Some ''abc''), Http_request (Some ''de'')]"
    "max_request_bytes ?cfg < total_body [Http_request (Some ''abcde'')]"
    by (simp_all add: max body_of_def)
  note over = oversized_refused [OF boom_reader_raises _ disjI1, of ?cfg, OF _ this(1)]
    oversized_refused [OF boom_reader_raises _ disjI1, of ?cfg, OF _ this(2)]
  show ?thesis
    by (subst over, simp add: max, subst over, simp add: max) (use digits in \<open>simp add: INT_MAX_STR_DIGITS_def\<close>)
qed

end
