(* ===== verification/GwSystem.thy ===== *)
theory GwSystem
  imports GwApp
begin

text \<open>
  The gateway as a state machine.  Its steps are the ones the event loop runs without a break: a whole
  ingest request (the handler awaits nothing once the body is parsed), the part of a health check after
  its probes have answered, and the end of the lifespan.  \<open>reachable\<close> is every state any
  interleaving of them leads to from the state at start-up; \<open>serving\<close> leaves the shutdown out.
\<close>

section \<open>Steps\<close>

definition monitor_step :: "settings \<Rightarrow> check_env \<Rightarrow> gateway \<Rightarrow> gateway" where
  "monitor_step cfg env g =
     (let (mon, fb) = check_once cfg env (g_monitor g, g_fallback g)
      in g\<lparr>g_monitor := mon, g_fallback := fb\<rparr>)"

inductive serve_step :: "settings \<Rightarrow> gateway \<Rightarrow> gateway \<Rightarrow> bool" for cfg where
  request: "post_ingest cfg lib sha dump_len now envs body request authz g = (a, g') \<Longrightarrow> serve_step cfg g g'"
| check: "serve_step cfg g (monitor_step cfg env g)"

inductive gw_step :: "settings \<Rightarrow> gateway \<Rightarrow> gateway \<Rightarrow> bool" for cfg where
  serve: "serve_step cfg g g' \<Longrightarrow> gw_step cfg g g'"
| shutdown: "app_shutdown g = (flushed, g') \<Longrightarrow> gw_step cfg g g'"

inductive serving :: "settings \<Rightarrow> gateway \<Rightarrow> bool" for cfg where
  start: "serving cfg empty_gateway"
| step: "serving cfg g \<Longrightarrow> serve_step cfg g g' \<Longrightarrow> serving cfg g'"

inductive reachable :: "settings \<Rightarrow> gateway \<Rightarrow> bool" for cfg where
  start: "reachable cfg empty_gateway"
| step: "reachable cfg g \<Longrightarrow> gw_step cfg g g' \<Longrightarrow> reachable cfg g'"

inductive_cases serve_stepE: "serve_step cfg g g'"
inductive_cases gw_stepE: "gw_step cfg g g'"

lemma serving_reachable: "serving cfg g \<Longrightarrow> reachable cfg g"
  by (induction rule: serving.induct) (auto intro: reachable.intros gw_step.serve)

section \<open>The files\<close>

text \<open>
  What the local files may hold: only the two logs of the configured directory, one timed JSON record
  per line, and no more backups than configured.
\<close>

definition log_line :: "string \<Rightarrow> bool" where
  "log_line l \<longleftrightarrow> (\<exists>now rec. json_line (timed now rec) l)"

definition log_file_ok :: "settings \<Rightarrow> rfile \<Rightarrow> bool" where
  "log_file_ok cfg f \<longleftrightarrow> list_all log_line (rfile_lines f)
     \<and> length (backups f) \<le> nat (fallback_log_backup_count cfg)"

definition entry_ok :: "settings \<Rightarrow> path \<times> rfile \<Rightarrow> bool" where
  "entry_ok cfg x \<longleftrightarrow> fst (fst x) = fallback_log_dir cfg \<and> fst (fst x) \<noteq> []
     \<and> snd (fst x) \<in> set [EVENTS_FILE, HEALTH_FILE] \<and> log_file_ok cfg (snd x)"

definition files_ok :: "settings \<Rightarrow> fallback \<Rightarrow> bool" where
  "files_ok cfg fb \<longleftrightarrow> handlers_ok cfg fb \<and> list_all (entry_ok cfg) (files fb)"

lemma handlers_ok_frame [simp, frame_simps]:
  "handlers_ok cfg (fb\<lparr>files := fs\<rparr>) = handlers_ok cfg fb"
  "handlers_ok cfg (fb\<lparr>fallback_events := n\<rparr>) = handlers_ok cfg fb"
  "handlers_ok cfg (fb\<lparr>warnings := ws\<rparr>) = handlers_ok cfg fb"
  by (simp_all add: handlers_ok_def)

lemma files_ok_new [simp]: "files_ok cfg new_fallback"
  by (simp add: files_ok_def) (simp add: new_fallback_def)

lemma append_line_ok:
  assumes "log_file_ok cfg f" "log_line l"
  shows "log_file_ok cfg (append_line mb (fallback_log_backup_count cfg) l f)"
proof -
  have "set (rfile_lines (append_line mb (fallback_log_backup_count cfg) l f)) \<subseteq> set (rfile_lines f @ [l])"
    by (rule set_mono_suffix) (rule rotated.write_suffix)
  moreover have "length (backups (append_line mb (fallback_log_backup_count cfg) l f)) \<le> nat (fallback_log_backup_count cfg)"
    using assms(1) by (auto simp: append_line_def rollover_def log_file_ok_def Let_def)
  ultimately show ?thesis using assms unfolding log_file_ok_def list_all_iff by auto
qed

lemma empty_file_ok: "log_file_ok cfg empty_file"
  by (simp add: log_file_ok_def) (simp add: empty_file_def)

lemma file_at_ok: "files_ok cfg fb \<Longrightarrow> log_file_ok cfg (file_at p fb)"
  by (auto simp: files_ok_def entry_ok_def file_at_def empty_file_ok list_all_iff dest!: map_of_SomeD split: option.splits)

lemma write_line_ok:
  assumes "files_ok cfg fb" "log_line l" "fallback_log_dir cfg \<noteq> []" "name \<in> set [EVENTS_FILE, HEALTH_FILE]"
  shows "files_ok cfg (write_line (fallback_log_dir cfg, name) l fb)"
proof (cases "map_of (handlers fb) (fallback_log_dir cfg, name)")
  case (Some b)
  then have b: "b = (fallback_log_max_bytes cfg, fallback_log_backup_count cfg)"
    using assms(1) unfolding files_ok_def handlers_ok_def by blast
  let ?f = "append_line (fallback_log_max_bytes cfg) (fallback_log_backup_count cfg) l (file_at (fallback_log_dir cfg, name) fb)"
  have "entry_ok cfg ((fallback_log_dir cfg, name), ?f)"
    using assms append_line_ok [OF file_at_ok [OF assms(1)] assms(2)] by (simp add: entry_ok_def)
  then have "list_all (entry_ok cfg) (AList.update (fallback_log_dir cfg, name) ?f (files fb))"
    using assms(1) by (intro list_all_update) (simp_all only: files_ok_def)
  then show ?thesis
    using Some b assms(1) by (simp add: write_line_def files_ok_def)
qed (use assms in \<open>simp add: write_line_def\<close>)

lemma write_record_ok:
  assumes "files_ok cfg fb" "log_line (json_dumps (PDict rec))" "name \<in> set [EVENTS_FILE, HEALTH_FILE]"
  shows "files_ok cfg (write_record cfg io name rec fb)"
proof -
  obtain p fb' where h: "handler_for cfg io name fb = (p, fb')" by force
  then have "files fb' = files fb" "handlers_ok cfg fb'" "p \<noteq> None \<Longrightarrow> p = Some (fallback_log_dir cfg, name) \<and> fallback_log_dir cfg \<noteq> []"
    using assms(1) by (auto simp: handler_for_def Let_def files_ok_def handlers_ok_def dict_simps split: if_splits option.splits)
  moreover from this have "files_ok cfg fb'" using assms(1) by (simp add: files_ok_def)
  ultimately show ?thesis
    using write_line_ok [OF _ assms(2) _ assms(3)] h
    by (cases p) (auto simp: write_record_def)
qed

lemma log_line_timed: "dumpable (PDict (timed now rec)) \<Longrightarrow> log_line (json_dumps (PDict (timed now rec)))"
  unfolding log_line_def json_line_def by blast

lemma write_health_ok: "files_ok cfg fb \<Longrightarrow> files_ok cfg (record_transition cfg env mon t fb)"
proof -
  have "log_line (json_dumps (PDict (timed now (health_record cfg mon t))))" for now
    by (intro log_line_timed dumpable_timed health_record_dumpable)
  then show "files_ok cfg fb \<Longrightarrow> files_ok cfg (record_transition cfg env mon t fb)"
    by (simp add: record_transition_def write_health_def write_record_ok)
qed

lemma log_event_ok: "files_ok cfg fb \<Longrightarrow> files_ok cfg (log_event cfg p env ev fb)"
proof -
  have "log_line (json_dumps (PDict (timed now (fallback_record ev (event_body ev) (event_attributes ev p)))))" for now
    unfolding log_line_def using event_json_line by blast
  then show "files_ok cfg fb \<Longrightarrow> files_ok cfg (log_event cfg p env ev fb)"
    using write_record_ok [of cfg fb _ EVENTS_FILE "ee_io env"]
    by (simp add: log_event_def write_event_def Let_def files_ok_def)
qed

lemma fold_write_ok: "(\<And>x fb. files_ok cfg fb \<Longrightarrow> files_ok cfg (w x fb)) \<Longrightarrow> files_ok cfg fb \<Longrightarrow> files_ok cfg (fold w xs fb)"
  by (induction xs arbitrary: fb) auto

section \<open>The invariant\<close>

text \<open>Every record exported went through a provider that is registered.\<close>

definition sent_through :: "emitter \<Rightarrow> emit_out \<Rightarrow> bool" where
  "sent_through em out = (case out of Exported lgr rec \<Rightarrow> \<exists>s. map_of (loggers em) s = Some lgr | _ \<Rightarrow> True)"

definition exported_ok :: "gateway \<Rightarrow> bool" where
  "exported_ok g = list_all (sent_through (g_emitter g)) (g_emitted g)"

text \<open>What holds in every reachable state.\<close>

definition gateway_ok :: "settings \<Rightarrow> gateway \<Rightarrow> bool" where
  "gateway_ok cfg g \<longleftrightarrow>
     wf_dict (g_hits g) \<and> wf_dict (g_recent g) \<and> length (g_recent g) \<le> Suc MAX_TRACKED_KEYS
     \<and> emitter_ok (g_emitter g)
     \<and> components_ok (g_monitor g) \<and> set (keys (components (g_monitor g))) \<subseteq> set (keys (stack_targets cfg))
     \<and> files_ok cfg (g_fallback g)
     \<and> length (g_emitted g) = g_accepted g"

lemma gateway_ok_empty: "gateway_ok cfg empty_gateway"
  by (simp add: gateway_ok_def empty_gateway_def) (simp add: new_monitor_def)

lemma gateway_ok_hits: "gateway_ok cfg g \<Longrightarrow> gateway_ok cfg (g\<lparr>g_hits := snd (rate_limited limit ip now (g_hits g))\<rparr>)"
  by (auto simp: gateway_ok_def rate_limited_def Let_def wf_prune_hits)

lemma run_duplicate_ok:
  assumes "wf_dict r" "length r \<le> Suc MAX_TRACKED_KEYS"
  shows "wf_dict (snd (run_checks (is_duplicate w) rs r)) \<and> length (snd (run_checks (is_duplicate w) rs r)) \<le> Suc MAX_TRACKED_KEYS"
  using assms
proof (induction rs arbitrary: r)
  case (Cons x rs)
  obtain t k where x: "x = (t, k)" by force
  have "wf_dict (snd (is_duplicate w k t r))" "length (snd (is_duplicate w k t r)) \<le> Suc MAX_TRACKED_KEYS"
    using Cons.prems(1) wf_is_duplicate length_is_duplicate by blast+
  from Cons.IH [OF this] show ?case by (simp add: x case_prod_beta Let_def)
qed simp

lemma after_batch_ok:
  assumes "gateway_ok cfg g" "list_all fields_ok evs"
  shows "gateway_ok cfg (after_batch cfg sha envs p ip i evs g)"
proof -
  have "files_ok cfg (fold (\<lambda>(j, ev). log_event cfg p (envs j) ev) fs (g_fallback g))" for fs
    using assms(1) by (intro fold_write_ok) (auto simp: log_event_ok gateway_ok_def)
  then show ?thesis
    using assms run_duplicate_ok [of "g_recent g"] emit_pass_ok [of "g_emitter g"] emit_pass_length [OF fresh_valid [OF assms(2)]]
    by (auto simp: gateway_ok_def after_batch_def Let_def case_prod_beta)
qed

lemma post_ingest_ok:
  assumes "gateway_ok cfg g"
  shows "gateway_ok cfg (snd (post_ingest cfg lib sha dump_len now envs body request authz g))"
proof (cases "validate_batch cfg dump_len body")
  case (Inl e)
  then show ?thesis using assms by (simp add: post_ingest_def)
next
  case (Inr evs)
  show ?thesis
  proof (cases "fst (rate_check cfg now request g)")
    case True
    then show ?thesis using gateway_ok_hits [OF assms] by (simp add: post_ingest_limited [OF Inr True])
  next
    case False
    show ?thesis
      using after_batch_ok [OF gateway_ok_hits [OF assms] validated_fields_ok [OF Inr]]
      by (simp add: post_ingest_accepted [OF Inr False])
  qed
qed

lemma keys_observe:
  "set (keys (components (fst (fold observe rs (mon, ts))))) = set (keys (components mon)) \<union> component ` set rs"
proof (induction rs arbitrary: mon ts)
  case (Cons r rs)
  show ?case
    by (subst fold_simps, subst observe_eq, subst Cons.IH) (auto simp: set_keys_update simp del: set_map)
qed simp

lemma monitor_step_ok:
  assumes "gateway_ok cfg g"
  shows "gateway_ok cfg (monitor_step cfg env g)"
proof -
  obtain mon ts where o: "observe_all (probe_all cfg env) (g_monitor g) = (mon, ts)" by force
  have targets: "component ` set (probe_all cfg env) = set (keys (stack_targets cfg))"
    by (force simp: probe_all_def)
  have m: "components_ok mon" "set (keys (components mon)) \<subseteq> set (keys (stack_targets cfg))"
    using assms fold_observe_ok [of "(g_monitor g, [])" "probe_all cfg env"] keys_observe [of "probe_all cfg env" "g_monitor g" "[]"] o
    by (simp_all add: gateway_ok_def observe_all_def targets del: set_map)
  moreover have "files_ok cfg (fold (record_transition cfg env mon) ts (g_fallback g))"
    using assms by (intro fold_write_ok write_health_ok) (simp_all add: gateway_ok_def)
  ultimately show ?thesis
    using assms by (simp add: monitor_step_def check_once_def o gateway_ok_def)
qed

lemma app_shutdown_ok: "gateway_ok cfg g \<Longrightarrow> gateway_ok cfg (snd (app_shutdown g))"
  using emitter_ok_shutdown [of "g_emitter g"]
  by (auto simp: app_shutdown_def gateway_ok_def files_ok_def handlers_ok_def fallback_close_def Let_def case_prod_beta)

lemma serve_step_ok: "serve_step cfg g g' \<Longrightarrow> gateway_ok cfg g \<Longrightarrow> gateway_ok cfg g'"
  by (erule serve_stepE) (metis post_ingest_ok snd_conv, simp add: monitor_step_ok)

lemma gw_step_ok: "gw_step cfg g g' \<Longrightarrow> gateway_ok cfg g \<Longrightarrow> gateway_ok cfg g'"
  by (erule gw_stepE) (blast intro: serve_step_ok, metis app_shutdown_ok snd_conv)

lemma reachable_ok: "reachable cfg g \<Longrightarrow> gateway_ok cfg g"
  by (induction rule: reachable.induct) (auto simp: gateway_ok_empty gw_step_ok)

section \<open>Exported records\<close>

lemma logger_for_registered:
  "logger_for cfg fe app em = (Inr lgr, em') \<Longrightarrow> \<exists>s. map_of (loggers em') s = Some lgr"
  by (auto simp: logger_for_def Let_def dict_simps split: option.splits if_splits)

lemma emit_registered:
  "emit cfg env app body level tr sp attrs em = (Inr (Exported lgr rec), em') \<Longrightarrow> \<exists>s. map_of (loggers em') s = Some lgr"
  using logger_for_registered
  by (fastforce simp: emit_def Let_def split: if_splits sum.splits prod.splits option.splits)

lemma emit_mono:
  "map_of (loggers em) s = Some p \<Longrightarrow> map_of (loggers (snd (emit cfg env app body level tr sp attrs em))) s = Some p"
  using emit_state [of cfg env app body level tr sp attrs em] logger_for_mono [of em s p] by metis

lemma exported_ok_frame [simp, frame_simps]:
  "exported_ok (g\<lparr>g_hits := h\<rparr>) = exported_ok g" "exported_ok (g\<lparr>g_recent := r\<rparr>) = exported_ok g"
  "exported_ok (g\<lparr>g_accepted := n\<rparr>) = exported_ok g" "exported_ok (g\<lparr>g_duplicate := n\<rparr>) = exported_ok g"
  "exported_ok (g\<lparr>g_fallback := fb\<rparr>) = exported_ok g" "exported_ok (g\<lparr>g_monitor := m\<rparr>) = exported_ok g"
  by (simp_all add: exported_ok_def)

lemma forward_event_exported:
  assumes "exported_ok g"
  shows "exported_ok (snd (forward_event cfg env p ev g))"
proof -
  obtain res em where e: "emit cfg (ee_emit env) (ev_app ev) (event_body ev) (ev_level ev) (ev_trace_id ev) (ev_span_id ev)
      (event_attributes ev p) (g_emitter g) = (res, em)" by force
  have "sent_through em out" if "sent_through (g_emitter g) out" for out
    using that emit_mono [of "g_emitter g"] e unfolding sent_through_def by (auto split: emit_out.splits) (metis snd_conv)
  then have old: "exported_ok (g\<lparr>g_emitter := em\<rparr>)"
    using assms by (auto simp: exported_ok_def list_all_iff)
  show ?thesis
  proof (cases res)
    case (Inr out)
    have "exported_ok (g\<lparr>g_emitter := em, g_emitted := g_emitted g @ [out]\<rparr>)"
      using old emit_registered e Inr by (auto simp: exported_ok_def sent_through_def split: emit_out.splits)
    then show ?thesis using e Inr by (simp add: forward_event_def Let_def)
  qed (use old e in \<open>simp add: forward_event_def Let_def\<close>)
qed

lemma ingest_event_exported: "exported_ok g \<Longrightarrow> exported_ok (snd (ingest_event cfg sha env p ip ev g))"
  by (auto simp: ingest_event_def Let_def case_prod_beta forward_event_exported)

lemma ingest_events_exported: "exported_ok g \<Longrightarrow> exported_ok (snd (ingest_events cfg sha envs p ip i evs g))"
proof (induction evs arbitrary: i g)
  case (Cons ev evs)
  then show ?case
    using ingest_event_exported [OF Cons.prems, of cfg sha "envs i" p ip ev]
    by (auto split: prod.splits option.splits)
qed simp

lemma post_ingest_exported: "exported_ok g \<Longrightarrow> exported_ok (snd (post_ingest cfg lib sha dump_len now envs body request authz g))"
  using ingest_events_exported [of "g\<lparr>g_hits := snd (rate_check cfg now request g)\<rparr>" cfg sha envs "principal_from_bearer cfg lib authz" "client_ip cfg request" 0]
  by (auto simp: post_ingest_def ingest_def Let_def case_prod_beta split: sum.splits option.splits prod.splits)

lemma serve_step_exported: "serve_step cfg g g' \<Longrightarrow> exported_ok g \<Longrightarrow> exported_ok g'"
  by (erule serve_stepE) (metis post_ingest_exported snd_conv, simp add: monitor_step_def case_prod_beta)

lemma serving_exported: "serving cfg g \<Longrightarrow> exported_ok g"
proof (induction rule: serving.induct)
  case start
  show ?case by (simp add: exported_ok_def) (simp add: empty_gateway_def)
qed (rule serve_step_exported)


section \<open>Shutdown and fallback\<close>

lemma distinct_providers:
  assumes "emitter_ok em"
  shows "distinct (map snd (providers em))"
proof -
  have "map resource_service (map snd (providers em)) = keys (providers em)"
    using assms by (auto simp: emitter_ok_def list_all_iff)
  moreover have "distinct (keys (providers em))" using assms by (simp add: emitter_ok_def wf_dict_def)
  ultimately show ?thesis by (metis distinct_map)
qed

lemma shutdown_flushes_all:
  assumes "serving cfg g"
  shows "let (flushed, g') = app_shutdown g
         in list_all (\<lambda>out. case out of Exported lgr rec \<Rightarrow> lgr \<in> set flushed | _ \<Rightarrow> True) (g_emitted g)
            \<and> distinct flushed \<and> providers (g_emitter g') = [] \<and> loggers (g_emitter g') = []
            \<and> handlers (g_fallback g') = [] \<and> files (g_fallback g') = files (g_fallback g)"
proof -
  have em: "emitter_ok (g_emitter g)"
    using reachable_ok [OF serving_reachable [OF assms]] by (simp add: gateway_ok_def)
  have "lgr \<in> set (map snd (providers (g_emitter g)))" if "map_of (loggers (g_emitter g)) s = Some lgr" for s lgr
    using map_of_SomeD [OF that] em by (force simp: emitter_ok_def)
  then have "case out of Exported lgr rec \<Rightarrow> lgr \<in> set (map snd (providers (g_emitter g))) | _ \<Rightarrow> True"
    if "sent_through (g_emitter g) out" for out
    using that by (cases out) (auto simp: sent_through_def)
  then have "list_all (\<lambda>out. case out of Exported lgr rec \<Rightarrow> lgr \<in> set (map snd (providers (g_emitter g))) | _ \<Rightarrow> True) (g_emitted g)"
    using serving_exported [OF assms] unfolding exported_ok_def by (rule list.pred_mono_strong [rotated])
  then show ?thesis
    using distinct_providers [OF em] by (simp add: app_shutdown_def emitter_shutdown_def fallback_close_def del: set_map)
qed

text \<open>Outside an outage a request writes nothing locally.\<close>

lemma post_ingest_no_fallback:
  assumes "\<not> fallback_active cfg (g_monitor g)"
  shows "g_fallback (snd (post_ingest cfg lib sha dump_len now envs body request authz g)) = g_fallback g"
proof (cases "validate_batch cfg dump_len body")
  case (Inr evs)
  then show ?thesis
    using post_ingest_limited [OF Inr, where now = now and request = request and g = g]
      post_ingest_accepted [OF Inr, where now = now and request = request and g = g and sha = sha and envs = envs
        and lib = lib and authz = authz] assms
    by (cases "fst (rate_check cfg now request g)") (auto simp: after_batch_def Let_def case_prod_beta)
qed (simp add: post_ingest_def)

lemma post_ingest_monitor: "g_monitor (snd (post_ingest cfg lib sha dump_len now envs body request authz g)) = g_monitor g"
proof (cases "validate_batch cfg dump_len body")
  case (Inr evs)
  then show ?thesis
    using post_ingest_limited [OF Inr, where now = now and request = request and g = g]
      post_ingest_accepted [OF Inr, where now = now and request = request and g = g and sha = sha and envs = envs
        and lib = lib and authz = authz]
    by (cases "fst (rate_check cfg now request g)") auto
qed (simp add: post_ingest_def)

section \<open>Inputs of the examples\<close>

definition after_boom :: gateway where
  "after_boom = snd (post_ingest default_settings reject_all_jwt (\<lambda>s. s) (\<lambda>ev. 40) 0 (\<lambda>i. quiet_env)
     boom_body empty_request None empty_gateway)"

lemma after_boom_serving: "serving default_settings after_boom"
  unfolding after_boom_def
  by (rule serving.step [OF serving.start]) (rule serve_step.request, rule surjective_pairing)

lemma after_boom_reachable: "reachable default_settings after_boom"
  by (rule serving_reachable) (rule after_boom_serving)

lemma boom_rate: "rate_check default_settings 0 empty_request empty_gateway = (False, [(''unknown'', [0])])"
proof -
  have "client_ip default_settings empty_request = ''unknown''"
    by (simp add: client_ip_def empty_request_def default_settings_def Let_def)
  then show ?thesis by (simp only:) (simp add: rate_limited_def prune_hits_def empty_gateway_def default_settings_def)
qed

lemma after_boom_state: "g_accepted after_boom = 1" "g_hits after_boom = [(''unknown'', [0])]"
proof -
  have f: "fresh default_settings (\<lambda>s. s) (\<lambda>i. quiet_env) ANONYMOUS ip 0 [plain_event ''boom''] (g_recent empty_gateway) = [(0, plain_event ''boom'')]" for ip
    by (simp add: fresh_Cons is_duplicate_def prune_recent_def empty_gateway_def)
  have "\<not> fst (rate_check default_settings 0 empty_request empty_gateway)" unfolding boom_rate by simp
  from post_ingest_accepted [OF boom_body_valid this, where lib = reject_all_jwt and sha = "\<lambda>s. s" and envs = "\<lambda>i. quiet_env" and authz = None]
  have b: "after_boom = after_batch default_settings (\<lambda>s. s) (\<lambda>i. quiet_env) ANONYMOUS (client_ip default_settings empty_request) 0
      [plain_event ''boom''] (empty_gateway\<lparr>g_hits := [(''unknown'', [0])]\<rparr>)"
    unfolding boom_rate by (auto simp: after_boom_def anonymous_bearer)
  show "g_accepted after_boom = 1" "g_hits after_boom = [(''unknown'', [0])]"
    unfolding b by (simp_all add: after_batch_counts f) (simp add: empty_gateway_def)
qed

text \<open>Settings with a log directory.\<close>

definition logged_settings :: settings where
  "logged_settings = default_settings\<lparr>fallback_log_dir := ''/logs''\<rparr>"

end
