(* ===== verification/GwRoutes.thy ===== *)
theory GwRoutes
  imports GwSystem
begin

text \<open>
  The application as its HTTP clients see it (\<open>obs_gateway/main.py\<close>): the routes of the three routers and of the
  module itself, the handler of each, the middleware in the order \<open>main.py\<close> adds it, the metrics each answered
  request leaves (\<open>metrics.py\<close>), and the log level of the process.

  FastAPI and its middleware are parameters: which route a request goes to (\<open>pick\<close>), what is answered without a
  route (404, 405, the documentation pages; \<open>other\<close>), which requests the CORS middleware answers itself (\<open>cors\<close>),
  what the framework makes of the received messages of a request, its \<open>Content-Type\<close> included (\<open>reader\<close>), and the text \<open>prometheus_client\<close> renders (\<open>latest\<close>).
\<close>

section \<open>The log level\<close>

text \<open>
  \<open>getattr(logging, settings.log_level.upper(), logging.INFO)\<close>: the names in module \<open>logging\<close> that are their own
  upper case, and what \<open>basicConfig\<close> makes of the attribute.  The capitals of U+00B5 and U+00FF are outside the
  character model; no name has them.
\<close>

definition py_upper :: "string \<Rightarrow> string" where
  "py_upper s = concat (map (\<lambda>c.
     if (97 \<le> code c \<and> code c \<le> 122) \<or> (224 \<le> code c \<and> code c \<le> 254 \<and> code c \<noteq> 247) then [char_of (code c - 32)]
     else if code c = 223 then ''SS'' else [c]) s)"

datatype log_attr = Level int | Text_attr | Dict_attr

datatype log_setup = Log_level int | Log_value_error | Log_type_error

definition LOGGING_NAMES :: "(string, log_attr) dict" where
  "LOGGING_NAMES =
     [(''CRITICAL'', Level 50), (''FATAL'', Level 50), (''ERROR'', Level 40), (''WARNING'', Level 30), (''WARN'', Level 30),
      (''INFO'', Level 20), (''DEBUG'', Level 10), (''NOTSET'', Level 0), (''BASIC_FORMAT'', Text_attr), (''_STYLES'', Dict_attr)]"

definition log_setup_of :: "settings \<Rightarrow> log_setup" where
  "log_setup_of cfg =
     (case (case map_of LOGGING_NAMES (py_upper (log_level cfg)) of None \<Rightarrow> Level 20 | Some a \<Rightarrow> a) of
        Level n \<Rightarrow> Log_level n | Text_attr \<Rightarrow> Log_value_error | Dict_attr \<Rightarrow> Log_type_error)"

section \<open>Routes\<close>

datatype endpoint = Ingest | Stack_status | Fleet_status | Verify | Health | Healthz | Metrics_page

record route =
  r_method :: string
  r_path :: string
  r_endpoint :: endpoint

definition ingest_router :: "route list" where
  "ingest_router = [\<lparr>r_method = ''POST'', r_path = ''/api/telemetry/v1'' @ ''/ingest'', r_endpoint = Ingest\<rparr>]"

definition health_router :: "route list" where
  "health_router =
     [\<lparr>r_method = ''GET'', r_path = ''/status/stack'', r_endpoint = Stack_status\<rparr>,
      \<lparr>r_method = ''GET'', r_path = ''/status'', r_endpoint = Fleet_status\<rparr>]"

definition authz_router :: "route list" where
  "authz_router = [\<lparr>r_method = ''GET'', r_path = ''/authz/verify'', r_endpoint = Verify\<rparr>]"

definition app_routes :: "route list" where
  "app_routes = ingest_router @ health_router @ authz_router @
     [\<lparr>r_method = ''GET'', r_path = ''/health'', r_endpoint = Health\<rparr>,
      \<lparr>r_method = ''GET'', r_path = ''/healthz'', r_endpoint = Healthz\<rparr>,
      \<lparr>r_method = ''GET'', r_path = ''/metrics'', r_endpoint = Metrics_page\<rparr>]"

section \<open>The metrics\<close>

text \<open>
  What the process exports: the series of \<open>metrics.py\<close> and \<open>stack.py\<close>.  A series of a labelled counter exists from
  its first increment on.
\<close>

record registry =
  http_request_duration_seconds :: "duration list"
  obs_ingest_events_total :: "(string, nat) dict"
  obs_stack_component_up :: "(string, nat) dict"
  obs_fallback_active :: nat
  obs_fallback_events_total :: nat

definition ingest_series :: "gateway \<Rightarrow> (string, nat) dict" where
  "ingest_series g = filter (\<lambda>(outcome, n). n \<noteq> 0) [(''accepted'', g_accepted g), (''duplicate'', g_duplicate g)]"

definition registry_of :: "duration list \<Rightarrow> gateway \<Rightarrow> registry" where
  "registry_of durations g =
     \<lparr>http_request_duration_seconds = durations, obs_ingest_events_total = ingest_series g,
      obs_stack_component_up = component_up (g_monitor g), obs_fallback_active = fallback_gauge (g_monitor g),
      obs_fallback_events_total = fallback_events (g_fallback g)\<rparr>"

section \<open>Requests, replies, state\<close>

record http_call =
  call_method :: string
  call_path :: string
  call_request :: http_request
  call_headers :: "(string, string) dict"      \<comment> \<open>as received, duplicates included\<close>
  call_messages :: "asgi_message list"

text \<open>What one request meets outside the gateway.\<close>

record outside =
  w_jwt :: jwt_lib
  w_rbac :: rbac_post
  w_get :: "string \<Rightarrow> string + int"
  w_sha :: "string \<Rightarrow> string"
  w_dump_len :: "telemetry_event \<Rightarrow> nat"
  w_now :: time
  w_envs :: "nat \<Rightarrow> event_env"
  w_start :: time
  w_finish :: time

record framework =
  pick :: "route list \<Rightarrow> string \<Rightarrow> string \<Rightarrow> route option"
  other :: "http_call \<Rightarrow> int \<times> string option"
  cors :: "cors_options \<Rightarrow> http_call \<Rightarrow> int option"
  reader :: "http_call \<Rightarrow> body_reader"
  latest :: "registry \<Rightarrow> string"

datatype payload =
    Empty
  | Detail string
  | Json pyval
  | Fleet fleet_status
  | Stack stack_snapshot
  | Identity "(string, string) dict"
  | Exposition string

datatype reply = Reply int payload | Crash py_exn

record app_state =
  app_gw :: gateway
  app_durations :: "duration list"

section \<open>The handlers\<close>

definition of_guarded :: "('a \<Rightarrow> int \<times> payload) \<Rightarrow> 'a guarded \<Rightarrow> reply" where
  "of_guarded f r = (case r of Refused c d \<Rightarrow> Reply c (Detail d) | Served x \<Rightarrow> (let (c, b) = f x in Reply c b))"

definition of_answer :: "answer \<times> gateway \<Rightarrow> reply \<times> gateway" where
  "of_answer r = (let (a, g) = r in (case a of Status c \<Rightarrow> Reply c Empty | Raised e \<Rightarrow> Crash e, g))"

definition metrics_response :: "framework \<Rightarrow> app_state \<Rightarrow> reply" where
  "metrics_response fw s = Reply 200 (Exposition (latest fw (registry_of (app_durations s) (app_gw s))))"

text \<open>\<open>Header(default=None)\<close> of \<open>authorization\<close> and \<open>x_internal_key\<close>.\<close>

definition handle ::
  "settings \<Rightarrow> framework \<Rightarrow> outside \<Rightarrow> http_call \<Rightarrow> (asgi_error + asgi_message) list \<Rightarrow> endpoint \<Rightarrow> app_state \<Rightarrow> reply \<times> gateway" where
  "handle cfg fw w call received e s =
     (let request = call_request call;
          authorization = map_of (req_headers request) ''authorization'';
          key = map_of (req_headers request) ''x-internal-key'';
          g = app_gw s
      in case e of
           Ingest \<Rightarrow>
             (case reader fw call received of
                Inl (HttpException c) \<Rightarrow> (Reply c (Detail ''request body too large''), g)
              | Inr None \<Rightarrow> (Reply 422 Empty, g)
              | Inr (Some body) \<Rightarrow>
                  of_answer (post_ingest cfg (w_jwt w) (w_sha w) (w_dump_len w) (w_now w) (w_envs w) body request authorization g))
         | Stack_status \<Rightarrow>
             (of_guarded (\<lambda>(c, snap). (c, Stack snap))
                (get_stack_status cfg (w_jwt w) (w_rbac w) (g_monitor g) request authorization key), g)
         | Fleet_status \<Rightarrow>
             (of_guarded (\<lambda>f. (fleet_code f, Fleet f))
                (get_status cfg (w_jwt w) (w_rbac w) (w_get w) request authorization key), g)
         | Verify \<Rightarrow>
             (let r = verify cfg (w_jwt w) (w_rbac w) request authorization in (Reply (status r) (Identity (headers r)), g))
         | Health \<Rightarrow> (let (c, b) = liveness cfg in (Reply c (Json b), g))
         | Healthz \<Rightarrow> (let (c, b) = liveness cfg in (Reply c (Json b), g))
         | Metrics_page \<Rightarrow> (metrics_response fw s, g))"

text \<open>The innermost application: the router, which leaves the path of the route in the scope.\<close>

definition route_call ::
  "settings \<Rightarrow> framework \<Rightarrow> outside \<Rightarrow> http_call \<Rightarrow> (asgi_error + asgi_message) list \<Rightarrow> app_state
   \<Rightarrow> reply \<times> string option \<times> app_state" where
  "route_call cfg fw w call received s =
     (case pick fw app_routes (call_method call) (call_path call) of
        None \<Rightarrow> (let (c, label) = other fw call in (Reply c Empty, label, s))
      | Some r \<Rightarrow> (let (rep, g) = handle cfg fw w call received (r_endpoint r) s in (rep, Some (r_path r), s\<lparr>app_gw := g\<rparr>)))"

text \<open>The middleware, outermost first, each passing the request on to the rest.\<close>

fun through ::
  "settings \<Rightarrow> framework \<Rightarrow> outside \<Rightarrow> http_call \<Rightarrow> middleware list \<Rightarrow> (asgi_error + asgi_message) list \<Rightarrow> app_state
   \<Rightarrow> reply \<times> string option \<times> app_state" where
  "through cfg fw w call [] received s = route_call cfg fw w call received s"
| "through cfg fw w call (Cors options # ms) received s =
     (case cors fw options call of
        Some c \<Rightarrow> (Reply c Empty, None, s)
      | None \<Rightarrow> through cfg fw w call ms received s)"
| "through cfg fw w call (Metrics # ms) received s =
     (let (rep, label, s') = through cfg fw w call ms received s;
          result = (case rep of Reply c b \<Rightarrow> Inr c | Crash e \<Rightarrow> Inl [])
      in (rep, label,
          s'\<lparr>app_durations := snd (record_request (call_method call) label (w_start w) (w_finish w) result (app_durations s'))\<rparr>))"
| "through cfg fw w call (Body_limit # ms) received s =
     (case body_size_limit cfg ''http'' (call_headers call) (call_messages call) of
        Not_http \<Rightarrow> through cfg fw w call ms received s
      | Too_large c \<Rightarrow> (Reply c (Detail ''request body too large''), None, s)
      | Raises e \<Rightarrow> (Crash e, None, s)
      | Limited rs \<Rightarrow> through cfg fw w call ms rs s)"

definition serve_http :: "settings \<Rightarrow> framework \<Rightarrow> outside \<Rightarrow> http_call \<Rightarrow> app_state \<Rightarrow> reply \<times> app_state" where
  "serve_http cfg fw w call s =
     (let (rep, label, s') = through cfg fw w call (middleware_stack cfg) (map Inr (call_messages call)) s in (rep, s'))"


section \<open>What a request does\<close>

text \<open>The gateway changes in the ingest handler only, and there by one step of \<^const>\<open>serve_step\<close>.\<close>

lemma handle_gateway:
  "snd (handle cfg fw w call received e s) = app_gw s
   \<or> (e = Ingest \<and> serve_step cfg (app_gw s) (snd (handle cfg fw w call received e s)))"
proof (cases e)
  case Ingest
  have "serve_step cfg g (snd (post_ingest cfg lib sha dump_len now envs body request authz g))"
    for g lib sha dump_len now envs body request authz
    by (rule serve_step.request [OF surjective_pairing])
  then show ?thesis
    by (auto simp: handle_def of_answer_def Ingest Let_def case_prod_beta split: sum.splits option.splits asgi_error.splits)
qed (simp_all add: handle_def Let_def case_prod_beta)

lemma route_call_gateway:
  assumes "route_call cfg fw w call received s = (rep, label, s')"
  shows "(app_gw s' = app_gw s \<or> serve_step cfg (app_gw s) (app_gw s')) \<and> app_durations s' = app_durations s"
proof (cases "pick fw app_routes (call_method call) (call_path call)")
  case (Some r)
  then show ?thesis
    using assms handle_gateway [of cfg fw w call received "r_endpoint r" s] by (auto simp: route_call_def Let_def case_prod_beta)
qed (use assms in \<open>simp add: route_call_def Let_def case_prod_beta\<close>)

lemma through_gateway:
  "through cfg fw w call ms received s = (rep, label, s') \<Longrightarrow> app_gw s' = app_gw s \<or> serve_step cfg (app_gw s) (app_gw s')"
proof (induction cfg fw w call ms received s arbitrary: rep label s' rule: through.induct)
  case (1 cfg fw w call received s)
  then show ?case using route_call_gateway by simp
next
  case (3 cfg fw w call ms received s)
  obtain rep1 label1 s1 where t: "through cfg fw w call ms received s = (rep1, label1, s1)" by (rule prod_cases3)
  show ?case using "3.IH" [OF t] "3.prems" by (auto simp: t Let_def)
qed (auto split: option.splits body_outcome.splits)

section \<open>The application and its clients\<close>

inductive app_reaches :: "settings \<Rightarrow> framework \<Rightarrow> app_state \<Rightarrow> bool" for cfg fw where
  start: "app_reaches cfg fw \<lparr>app_gw = empty_gateway, app_durations = []\<rparr>"
| call: "app_reaches cfg fw s \<Longrightarrow> serve_http cfg fw w call s = (rep, s') \<Longrightarrow> app_reaches cfg fw s'"
| check: "app_reaches cfg fw s \<Longrightarrow> app_reaches cfg fw (s\<lparr>app_gw := monitor_step cfg env (app_gw s)\<rparr>)"

lemma app_serving: "app_reaches cfg fw s \<Longrightarrow> serving cfg (app_gw s)"
proof (induction rule: app_reaches.induct)
  case (call s w call rep s')
  obtain rep' label s1 where t: "through cfg fw w call (middleware_stack cfg) (map Inr (call_messages call)) s = (rep', label, s1)"
    by (rule prod_cases3)
  then have "s1 = s'" using call.hyps(2) by (simp add: serve_http_def)
  with through_gateway [OF t] show ?case using call.IH by (auto intro: serving.step)
qed (auto intro: serving.start serving.step serve_step.check)

text \<open>The calls of many clients, served in turn.\<close>

fun serve_calls :: "settings \<Rightarrow> framework \<Rightarrow> (outside \<times> http_call) list \<Rightarrow> app_state \<Rightarrow> reply list \<times> app_state" where
  "serve_calls cfg fw [] s = ([], s)"
| "serve_calls cfg fw ((w, call) # calls) s =
     (let (rep, s1) = serve_http cfg fw w call s; (reps, s2) = serve_calls cfg fw calls s1 in (rep # reps, s2))"

text \<open>Requests the CORS middleware answers before anything else sees them.\<close>

definition preflight :: "settings \<Rightarrow> framework \<Rightarrow> http_call \<Rightarrow> bool" where
  "preflight cfg fw call = list_ex (\<lambda>m. case m of Cors options \<Rightarrow> cors fw options call \<noteq> None | _ \<Rightarrow> False) (middleware_stack cfg)"

text \<open>The path under which a request is counted.\<close>

definition route_label :: "settings \<Rightarrow> framework \<Rightarrow> http_call \<Rightarrow> string option" where
  "route_label cfg fw call =
     (case body_size_limit cfg ''http'' (call_headers call) (call_messages call) of
        Limited rs \<Rightarrow>
          (case pick fw app_routes (call_method call) (call_path call) of None \<Rightarrow> snd (other fw call) | Some r \<Rightarrow> Some (r_path r))
      | _ \<Rightarrow> None)"

definition observation :: "settings \<Rightarrow> framework \<Rightarrow> outside \<Rightarrow> http_call \<Rightarrow> int \<Rightarrow> duration" where
  "observation cfg fw w call c =
     \<lparr>d_method = call_method call,
      d_route = (case route_label cfg fw call of None \<Rightarrow> ''unmatched'' | Some path \<Rightarrow> path),
      d_status = py_int_str c, d_seconds = w_finish w - w_start w\<rparr>"

lemma limit_not_http: "body_size_limit cfg ''http'' hdrs messages \<noteq> Not_http"
  by (auto simp: body_size_limit_def Let_def split: option.splits sum.splits if_splits)

lemma route_call_label:
  "route_call cfg fw w call received s = (rep, label, s') \<Longrightarrow>
     label = (case pick fw app_routes (call_method call) (call_path call) of None \<Rightarrow> snd (other fw call) | Some r \<Rightarrow> Some (r_path r))"
  by (auto simp: route_call_def Let_def case_prod_beta split: option.splits)

lemma limited_call:
  assumes "through cfg fw w call [Body_limit] received s = (rep, label, s')"
  shows "label = route_label cfg fw call \<and> app_durations s' = app_durations s"
  using assms limit_not_http [of cfg "call_headers call" "call_messages call"] route_call_gateway route_call_label
  by (fastforce simp: route_label_def split: body_outcome.splits)

lemma observed_call:
  assumes "through cfg fw w call [Metrics, Body_limit] received s = (rep, label, s')"
  shows "app_durations s' = app_durations s @ (case rep of Reply c b \<Rightarrow> [observation cfg fw w call c] | Crash e \<Rightarrow> [])"
proof -
  obtain rep1 label1 s1 where t: "through cfg fw w call [Body_limit] received s = (rep1, label1, s1)" by (rule prod_cases3)
  from limited_call [OF t] assms show ?thesis
    by (auto simp: t Let_def record_request_def observation_def split: reply.splits simp del: through.simps(4))
qed

lemma serve_http_durations:
  assumes "serve_http cfg fw w call s = (rep, s')"
  shows "app_durations s' = app_durations s @
    (case rep of Reply c b \<Rightarrow> if preflight cfg fw call then [] else [observation cfg fw w call c] | Crash e \<Rightarrow> [])"
proof -
  obtain rep1 label s1 where t: "through cfg fw w call [Metrics, Body_limit] (map Inr (call_messages call)) s = (rep1, label, s1)"
    by (rule prod_cases3)
  from observed_call [OF t] assms show ?thesis
    by (auto simp: serve_http_def preflight_def middleware_stack_def t split: option.splits reply.splits
        simp del: through.simps(3,4))
qed

section \<open>What a reply reveals\<close>

definition cleared :: "settings \<Rightarrow> outside \<Rightarrow> http_call \<Rightarrow> reply \<Rightarrow> bool" where
  "cleared cfg w call rep =
     (let request = call_request call;
          authorization = map_of (req_headers request) ''authorization'';
          guard = require_action cfg (w_jwt w) (w_rbac w) ''status:read'' request authorization
                    (map_of (req_headers request) ''x-internal-key'')
      in case rep of
           Reply c (Fleet f) \<Rightarrow> guard = Pass
         | Reply c (Stack f) \<Rightarrow> guard = Pass
         | Reply c (Identity hs) \<Rightarrow> c = 200 \<longrightarrow>
             allowed (get_authorizer cfg (w_rbac w) (principal_from_bearer cfg (w_jwt w) (bearer_of cfg authorization request))
               (action_for_path cfg (hd (py_split1 CHR ''?'' (original_uri request)))) None)
         | _ \<Rightarrow> True)"

lemma cleared_simps [simp]:
  "cleared cfg w call (Crash e)" "cleared cfg w call (Reply c Empty)" "cleared cfg w call (Reply c (Detail t))"
  "cleared cfg w call (Reply c (Json j))" "cleared cfg w call (Reply c (Exposition t))"
  by (simp_all add: cleared_def)

lemma handle_cleared: "cleared cfg w call (fst (handle cfg fw w call received e s))"
proof (cases e)
  case Ingest
  then show ?thesis
    by (simp add: handle_def of_answer_def Let_def case_prod_beta split: sum.splits option.splits asgi_error.splits answer.splits)
next
  case Stack_status
  then show ?thesis
    by (simp add: handle_def of_guarded_def get_stack_status_def guarded_route_def cleared_def Let_def case_prod_beta
        split: guard_result.splits)
next
  case Fleet_status
  then show ?thesis
    by (simp add: handle_def of_guarded_def get_status_def guarded_route_def cleared_def Let_def split: guard_result.splits)
next
  case Verify
  then show ?thesis by (simp add: handle_def verify_def cleared_def Let_def)
qed (simp_all add: handle_def metrics_response_def Let_def case_prod_beta)

lemma through_cleared: "cleared cfg w call (fst (through cfg fw w call ms received s))"
proof (induction cfg fw w call ms received s rule: through.induct)
  case (1 cfg fw w call received s)
  then show ?case using handle_cleared by (simp add: route_call_def Let_def case_prod_beta split: option.splits)
qed (simp_all add: Let_def case_prod_beta split: option.splits body_outcome.splits)

section \<open>Inputs of the examples\<close>

text \<open>What is relied on of the router: a path without parameters is matched literally, with its method, in order.\<close>

definition routes_literally :: "framework \<Rightarrow> bool" where
  "routes_literally fw \<longleftrightarrow> (\<forall>m p. pick fw app_routes m p = List.find (\<lambda>r. r_method r = m \<and> r_path r = p) app_routes)"

definition example_framework :: framework where
  "example_framework = \<lparr>pick = \<lambda>rs m p. List.find (\<lambda>r. r_method r = m \<and> r_path r = p) rs, other = \<lambda>call. (404, None),
     cors = \<lambda>options call. None, reader = \<lambda>call. boom_reader, latest = \<lambda>r. []\<rparr>"

definition example_outside :: outside where
  "example_outside = \<lparr>w_jwt = reject_all_jwt, w_rbac = no_rbac_post, w_get = \<lambda>url. Inr 200, w_sha = \<lambda>s. s, w_dump_len = \<lambda>ev. 40,
     w_now = 0, w_envs = \<lambda>i. quiet_env, w_start = 0, w_finish = 1\<rparr>"

definition example_call :: "string \<Rightarrow> string \<Rightarrow> http_call" where
  "example_call method path = \<lparr>call_method = method, call_path = path, call_request = empty_request, call_headers = [],
     call_messages = []\<rparr>"

definition keyed_settings :: settings where
  "keyed_settings = default_settings\<lparr>authz_mode := Mode_static, internal_api_key := Some ''k''\<rparr>"

definition keyed_request :: http_request where
  "keyed_request = \<lparr>req_headers = [(''x-internal-key'', ''k'')], req_cookies = [], req_client = None\<rparr>"

definition fresh_app :: app_state where
  "fresh_app = \<lparr>app_gw = empty_gateway, app_durations = []\<rparr>"

section \<open>Ingestion behind the middleware\<close>

text \<open>The HTTP layer adds nothing to ingestion.  A POST to the ingest path that is no preflight is answered, and changes
  the gateway, exactly as the body limit and the handler do: the routing, the CORS and the metrics middleware alter
  neither the status nor the state.\<close>

lemma http_ingest_pipeline:
  assumes "routes_literally fw" "call_method call = ''POST''" "call_path call = ''/api/telemetry/v1/ingest''"
    and "\<not> preflight cfg fw call" "serve_http cfg fw w call s = (rep, s')"
  shows "case serve_ingest cfg (reader fw call) (w_jwt w) (w_sha w) (w_dump_len w) (w_now w) (w_envs w) (call_headers call)
      (call_messages call) (call_request call) (map_of (req_headers (call_request call)) ''authorization'') (app_gw s) of
      (Status c, g) \<Rightarrow> app_gw s' = g \<and> (\<exists>b. rep = Reply c b)
    | (Raised e, g) \<Rightarrow> app_gw s' = g \<and> rep = Crash e"
proof -
  obtain rep1 label s1 where t: "through cfg fw w call [Metrics, Body_limit] (map Inr (call_messages call)) s = (rep1, label, s1)"
    by (rule prod_cases3)
  have "rep1 = rep" "s1 = s'"
    using assms(4,5) t by (auto simp: serve_http_def preflight_def middleware_stack_def split: if_splits simp del: through.simps(3,4))
  moreover have "pick fw app_routes (call_method call) (call_path call)
      = Some \<lparr>r_method = ''POST'', r_path = ''/api/telemetry/v1/ingest'', r_endpoint = Ingest\<rparr>"
    using assms(1-3) by (simp add: routes_literally_def app_routes_def ingest_router_def)
  ultimately show ?thesis
    using t limit_not_http [of cfg "call_headers call" "call_messages call"]
    by (auto simp: serve_ingest_def Let_def route_call_def handle_def of_answer_def case_prod_beta
        split: body_outcome.splits sum.splits option.splits asgi_error.splits answer.splits)
qed

text \<open>Every other request leaves the gateway as it is.\<close>

lemma other_call_gateway:
  assumes "routes_literally fw" "serve_http cfg fw w call s = (rep, s')"
    and "\<not> (call_method call = ''POST'' \<and> call_path call = ''/api/telemetry/v1/ingest'' \<and> \<not> preflight cfg fw call)"
  shows "app_gw s' = app_gw s"
proof -
  have ends: "r_method r = ''POST'' \<and> r_path r = ''/api/telemetry/v1/ingest''" if "r \<in> set app_routes" "r_endpoint r = Ingest" for r
    using that by (auto simp: app_routes_def ingest_router_def health_router_def authz_router_def)
  have routed: "app_gw (snd (snd (route_call cfg fw w call rs s))) = app_gw s"
    if "call_method call = ''POST'' \<and> call_path call = ''/api/telemetry/v1/ingest'' \<Longrightarrow> False" for rs
  proof (cases "pick fw app_routes (call_method call) (call_path call)")
    case (Some r)
    then have "r \<in> set app_routes" "r_method r = call_method call" "r_path r = call_path call"
      using assms(1) by (auto simp: routes_literally_def find_Some_iff)
    then have "r_endpoint r \<noteq> Ingest" using ends that by metis
    then show ?thesis
      using Some handle_gateway [of cfg fw w call rs "r_endpoint r" s] by (auto simp: route_call_def Let_def case_prod_beta)
  qed (simp add: route_call_def Let_def case_prod_beta)
  have limited: "app_gw s1 = app_gw s" if "through cfg fw w call [Metrics, Body_limit] rs s = (rep1, label, s1)"
      "call_method call = ''POST'' \<and> call_path call = ''/api/telemetry/v1/ingest'' \<Longrightarrow> False" for rs rep1 label s1
    using that(1) routed [OF that(2)] by (auto simp: Let_def case_prod_beta split: body_outcome.splits)
  obtain rep1 label s1 where t: "through cfg fw w call [Metrics, Body_limit] (map Inr (call_messages call)) s = (rep1, label, s1)"
    by (rule prod_cases3)
  show ?thesis
    using assms(2,3) t limited [OF t]
    by (auto simp: serve_http_def preflight_def middleware_stack_def split: if_splits option.splits simp del: through.simps(3,4))
qed

section \<open>Properties\<close>

text \<open>The application refines the gateway.  Whatever requests clients send to any path, and whatever the framework
  makes of them, every state the application reaches is one the gateway reaches by ingest requests and
  checks; what holds of those holds of the application.  Memory, to begin with, is bounded but for the rate-limit table.\<close>

theorem app_refines_gateway:
  assumes "app_reaches cfg fw s"
  shows "serving cfg (app_gw s) \<and> length (g_recent (app_gw s)) \<le> 4097 \<and> length (providers (g_emitter (app_gw s))) \<le> 33"
proof -
  have "serving cfg (app_gw s)" using assms by (rule app_serving)
  moreover from this have "gateway_ok cfg (app_gw s)" by (intro reachable_ok serving_reachable)
  then have "length (g_recent (app_gw s)) \<le> 4097" "length (providers (g_emitter (app_gw s))) \<le> 33"
    using emitter_ok_length [of "g_emitter (app_gw s)"] by (simp_all add: gateway_ok_def emitter_ok_def MAX_TRACKED_KEYS_def MAX_APP_SERVICES_def)
  ultimately show ?thesis by blast
qed

theorem app_refines_gateway_witness:
  "length (g_recent (app_gw (snd (serve_http default_settings example_framework example_outside
      (example_call ''POST'' ''/api/telemetry/v1/ingest'') fresh_app)))) \<le> 4097"
proof -
  have "app_reaches default_settings example_framework (snd (serve_http default_settings example_framework example_outside
      (example_call ''POST'' ''/api/telemetry/v1/ingest'') fresh_app))"
    unfolding fresh_app_def by (rule app_reaches.call [OF app_reaches.start surjective_pairing])
  from app_refines_gateway [OF this] show ?thesis by blast
qed

text \<open>C12: status and identity leave the gateway past the guard only.  However a request is routed, a body with the fleet
  status or the stack status was sent because the guard let this request through, and identity headers with status 200
  because the authorizer allowed the action of the original path.\<close>

theorem protected_past_guard:
  assumes "serve_http cfg fw w call s = (Reply c b, s')"
  shows "let request = call_request call;
      authorization = map_of (req_headers request) ''authorization'';
      guard = require_action cfg (w_jwt w) (w_rbac w) ''status:read'' request authorization
                (map_of (req_headers request) ''x-internal-key'')
    in (case b of
      Fleet f \<Rightarrow> guard = Pass
    | Stack f \<Rightarrow> guard = Pass
    | Identity hs \<Rightarrow> c = 200 \<longrightarrow>
        allowed (get_authorizer cfg (w_rbac w) (principal_from_bearer cfg (w_jwt w) (bearer_of cfg authorization request))
          (action_for_path cfg (hd (py_split1 CHR ''?'' (original_uri request)))) None)
    | _ \<Rightarrow> True)"
proof -
  have "rep' = fst (through cfg fw w call (middleware_stack cfg) (map Inr (call_messages call)) s)"
    if "serve_http cfg fw w call s = (rep', s')" for rep'
    using that by (simp add: serve_http_def case_prod_beta)
  then have "cleared cfg w call (Reply c b)" using assms(1) through_cleared by metis
  then show ?thesis by (simp add: cleared_def Let_def split: payload.splits)
qed

theorem protected_past_guard_witness:
  "require_action keyed_settings reject_all_jwt no_rbac_post ''status:read'' keyed_request None (Some ''k'') = Pass"
proof -
  let ?call = "(example_call ''GET'' ''/status'')\<lparr>call_request := keyed_request\<rparr>"
  obtain rep s' where h: "serve_http keyed_settings example_framework example_outside ?call fresh_app = (rep, s')" by force
  have "case fst (serve_http keyed_settings example_framework example_outside ?call fresh_app) of
      Reply c (Fleet f) \<Rightarrow> c = 200 | _ \<Rightarrow> False"
    by code_simp
  then obtain f where "rep = Reply 200 (Fleet f)" unfolding h by (auto split: reply.splits payload.splits)
  with h have "serve_http keyed_settings example_framework example_outside ?call fresh_app = (Reply 200 (Fleet f), s')" by simp
  from protected_past_guard [OF this] show ?thesis
    by (simp add: example_outside_def keyed_request_def Let_def)
qed

text \<open>C23: every answered request is counted once.  Over any sequence of requests the observations of
  \<open>http_request_duration_seconds\<close> are, in order, those of the replies given, with the method of the request, the
  status of the reply and the template of the route: only preflight answers of the CORS middleware and crashes are not
  counted, and a request refused for its declared length is counted under \<open>unmatched\<close>.\<close>

theorem observations_match_replies:
  "app_durations (snd (serve_calls cfg fw calls s)) = app_durations s @
     concat (map (\<lambda>((w, call), rep). case rep of
         Reply c b \<Rightarrow> if preflight cfg fw call then [] else [observation cfg fw w call c]
       | Crash e \<Rightarrow> []) (zip calls (fst (serve_calls cfg fw calls s))))"
proof (induction calls arbitrary: s)
  case (Cons x calls)
  obtain w call where x: "x = (w, call)" by force
  obtain rep s1 where h: "serve_http cfg fw w call s = (rep, s1)" by force
  from serve_http_durations [OF h] Cons.IH [of s1] show ?case
    by (cases rep) (simp_all add: x h case_prod_beta Let_def)
qed simp


text \<open>The log level.  Setting the level fails for exactly two names, which are attributes of \<open>logging\<close> but no levels;
  every other unknown name means \<open>INFO\<close>, in any case of letters.\<close>

theorem log_level_total:
  "case log_setup_of cfg of
     Log_value_error \<Rightarrow> py_upper (log_level cfg) = ''BASIC_FORMAT''
   | Log_type_error \<Rightarrow> py_upper (log_level cfg) = ''_STYLES''
   | Log_level n \<Rightarrow> (if map_of LOGGING_NAMES (py_upper (log_level cfg)) = None then n = 20
                    else map_of LOGGING_NAMES (py_upper (log_level cfg)) = Some (Level n))"
  by (auto simp: log_setup_of_def LOGGING_NAMES_def split: option.splits)

lemma log_level_examples:
  "map (\<lambda>l. log_setup_of (default_settings\<lparr>log_level := l\<rparr>)) [''debug'', ''Warn'', ''verbose'', ''basic_format'']
     = [Log_level 10, Log_level 30, Log_level 20, Log_value_error]"
  by code_simp

end
