(* ===== verification/GwService.thy ===== *)
theory GwService
  imports GwSystem
begin

text \<open>
  What the ingest service promises, as an abstract server, and that the gateway implements it.

  The abstract server keeps three logs and never forgets: the accepted requests, every sighting of an event
  signature, and the events forwarded.  It knows nothing of the stack monitor, the emitter's providers, the
  local files, or of failures of the SDK and the disk.  The simulation contract is the locale
  \<open>simulation\<close>; the gateway meets it twice, for its answers (\<open>answers\<close>) and, while no window of the
  deduplication holds more than \<open>MAX_TRACKED_KEYS\<close> signatures, for the events it forwards as well (\<open>service\<close>).
  PyJWT is part of each request: what it makes of a token may change from one request to the next.
\<close>

section \<open>Simulation\<close>

fun run_steps :: "('i \<Rightarrow> 's \<Rightarrow> 'o \<times> 's) \<Rightarrow> 'i list \<Rightarrow> 's \<Rightarrow> 'o list \<times> 's" where
  "run_steps f [] s = ([], s)"
| "run_steps f (i # is) s = (let (out, s') = f i s; (outs, s'') = run_steps f is s' in (out # outs, s''))"

lemma run_steps_Cons:
  "fst (run_steps f (i # is) s) = fst (f i s) # fst (run_steps f is (snd (f i s)))"
  "snd (run_steps f (i # is) s) = snd (run_steps f is (snd (f i s)))"
  by (simp_all add: case_prod_beta Let_def)

declare run_steps.simps(2) [simp del] run_steps_Cons [simp]

text \<open>\<open>ok\<close> says which inputs are still to come and may use the abstract state.\<close>

locale simulation =
  fixes cstep :: "'i \<Rightarrow> 'c \<Rightarrow> 'o \<times> 'c"
    and astep :: "'i \<Rightarrow> 'a \<Rightarrow> 'o \<times> 'a"
    and ok :: "'i list \<Rightarrow> 'a \<Rightarrow> bool"
    and rel :: "'c \<Rightarrow> 'a \<Rightarrow> bool"
  assumes step_out: "rel c a \<Longrightarrow> ok (i # is) a \<Longrightarrow> fst (cstep i c) = fst (astep i a)"
    and step_rel: "rel c a \<Longrightarrow> ok (i # is) a \<Longrightarrow> rel (snd (cstep i c)) (snd (astep i a))"
    and step_ok: "ok (i # is) a \<Longrightarrow> ok is (snd (astep i a))"
begin

lemma run_simulates:
  assumes "rel c a" "ok is a"
  shows "fst (run_steps cstep is c) = fst (run_steps astep is a)"
    and "rel (snd (run_steps cstep is c)) (snd (run_steps astep is a))"
proof -
  have "fst (run_steps cstep is c) = fst (run_steps astep is a)
      \<and> rel (snd (run_steps cstep is c)) (snd (run_steps astep is a))"
    using assms
  proof (induction "is" arbitrary: c a)
    case (Cons i "is")
    show ?case
      using Cons.IH [OF step_rel [OF Cons.prems] step_ok [OF Cons.prems(2)]] step_out [OF Cons.prems]
      by simp
  qed simp
  then show "fst (run_steps cstep is c) = fst (run_steps astep is a)"
    "rel (snd (run_steps cstep is c)) (snd (run_steps astep is a))" by simp_all
qed

end

section \<open>Calls\<close>

record post =
  po_jwt :: jwt_lib
  po_now :: time
  po_envs :: "nat \<Rightarrow> event_env"
  po_body :: pyval
  po_request :: http_request
  po_authz :: "string option"

datatype call = Post post | Stack_check check_env

text \<open>The gateway's side: the answer to a request, nothing for a health check.\<close>

definition serve_call ::
  "settings \<Rightarrow> (string \<Rightarrow> string) \<Rightarrow> (telemetry_event \<Rightarrow> nat) \<Rightarrow> call \<Rightarrow> gateway \<Rightarrow> answer option \<times> gateway" where
  "serve_call cfg sha dump_len c g =
     (case c of
        Post po \<Rightarrow> apfst Some (post_ingest cfg (po_jwt po) sha dump_len (po_now po) (po_envs po) (po_body po) (po_request po) (po_authz po) g)
      | Stack_check env \<Rightarrow> (None, monitor_step cfg env g))"

definition post_times :: "call list \<Rightarrow> time list" where
  "post_times cs = List.map_filter (\<lambda>c. case c of Post po \<Rightarrow> Some (po_now po) | Stack_check env \<Rightarrow> None) cs"

section \<open>The abstract server\<close>

record ledger =
  l_clock :: time
  l_requests :: "(time \<times> string) list"
  l_seen :: "(time \<times> string) list"
  l_forwarded :: "(event_env \<times> principal \<times> telemetry_event) list"

definition empty_ledger :: "time \<Rightarrow> ledger" where
  "empty_ledger t = \<lparr>l_clock = t, l_requests = [], l_seen = [], l_forwarded = []\<rparr>"

definition ledger_event ::
  "settings \<Rightarrow> (string \<Rightarrow> string) \<Rightarrow> event_env \<Rightarrow> principal \<Rightarrow> string \<Rightarrow> telemetry_event \<Rightarrow> ledger \<Rightarrow> ledger" where
  "ledger_event cfg sha env p ip ev led =
     (let k = signature sha ev (event_body ev) p ip; now = ee_now env
      in led\<lparr>l_seen := l_seen led @ [(now, k)],
             l_forwarded := l_forwarded led @
               (if seen_recently (dedupe_window_seconds cfg) (l_seen led) k now then [] else [(env, p, ev)])\<rparr>)"

fun ledger_events ::
  "settings \<Rightarrow> (string \<Rightarrow> string) \<Rightarrow> (nat \<Rightarrow> event_env) \<Rightarrow> principal \<Rightarrow> string \<Rightarrow> nat \<Rightarrow> telemetry_event list
   \<Rightarrow> ledger \<Rightarrow> ledger" where
  "ledger_events cfg sha envs p ip i [] led = led"
| "ledger_events cfg sha envs p ip i (ev # evs) led =
     ledger_events cfg sha envs p ip (Suc i) evs (ledger_event cfg sha (envs i) p ip ev led)"

definition ledger_post ::
  "settings \<Rightarrow> (string \<Rightarrow> string) \<Rightarrow> (telemetry_event \<Rightarrow> nat) \<Rightarrow> post \<Rightarrow> ledger \<Rightarrow> answer \<times> ledger" where
  "ledger_post cfg sha dump_len po led =
     (case validate_batch cfg dump_len (po_body po) of
        Inl e \<Rightarrow> (Status 422, led)
      | Inr evs \<Rightarrow>
          (let ip = client_ip cfg (po_request po);
               (limited, requests) = spec_check RATE_WINDOW_SECONDS (rate_limit_per_min cfg) ip (po_now po) (l_requests led);
               led' = led\<lparr>l_clock := po_now po, l_requests := requests\<rparr>
           in if limited then (Status 429, led')
              else (Status 204, ledger_events cfg sha (po_envs po) (principal_from_bearer cfg (po_jwt po) (po_authz po)) ip 0 evs led')))"

definition ledger_call ::
  "settings \<Rightarrow> (string \<Rightarrow> string) \<Rightarrow> (telemetry_event \<Rightarrow> nat) \<Rightarrow> call \<Rightarrow> ledger \<Rightarrow> answer option \<times> ledger" where
  "ledger_call cfg sha dump_len c led =
     (case c of Post po \<Rightarrow> apfst Some (ledger_post cfg sha dump_len po led) | Stack_check env \<Rightarrow> (None, led))"

lemma call_simps [simp]:
  "serve_call cfg sha dump_len (Post po) g =
     apfst Some (post_ingest cfg (po_jwt po) sha dump_len (po_now po) (po_envs po) (po_body po) (po_request po) (po_authz po) g)"
  "serve_call cfg sha dump_len (Stack_check env) g = (None, monitor_step cfg env g)"
  "ledger_call cfg sha dump_len (Post po) led = apfst Some (ledger_post cfg sha dump_len po led)"
  "ledger_call cfg sha dump_len (Stack_check env) led = (None, led)"
  by (simp_all add: serve_call_def ledger_call_def)

text \<open>The answers alone: they depend on the clock, the client address and validity of each request.\<close>

fun verdicts :: "int \<Rightarrow> (time \<times> string \<times> bool) list \<Rightarrow> (time \<times> string) list \<Rightarrow> answer list" where
  "verdicts limit [] lg = []"
| "verdicts limit ((now, ip, valid) # rs) lg =
     (if \<not> valid then Status 422 # verdicts limit rs lg
      else if limit \<le> int (length (in_window RATE_WINDOW_SECONDS now ip lg)) then Status 429 # verdicts limit rs lg
      else Status 204 # verdicts limit rs (lg @ [(now, ip)]))"

definition visible :: "settings \<Rightarrow> (telemetry_event \<Rightarrow> nat) \<Rightarrow> call list \<Rightarrow> (time \<times> string \<times> bool) list" where
  "visible cfg dump_len cs = List.map_filter (\<lambda>c. case c of
       Post po \<Rightarrow> Some (po_now po, client_ip cfg (po_request po), \<not> isl (validate_batch cfg dump_len (po_body po)))
     | Stack_check env \<Rightarrow> None) cs"

lemma ledger_events_frame [simp, frame_simps]:
  "l_clock (ledger_events cfg sha envs p ip i evs led) = l_clock led"
  "l_requests (ledger_events cfg sha envs p ip i evs led) = l_requests led"
  by (induction evs arbitrary: i led) (simp_all add: ledger_event_def Let_def)

lemma map_filter_Cons: "List.map_filter f (x # xs) = (case f x of None \<Rightarrow> [] | Some y \<Rightarrow> [y]) @ List.map_filter f xs"
  by (simp split: option.split)

lemma ledger_answers:
  "List.map_filter id (fst (run_steps (ledger_call cfg sha dump_len) cs led))
     = verdicts (rate_limit_per_min cfg) (visible cfg dump_len cs) (l_requests led)"
proof (induction cs arbitrary: led)
  case (Cons c cs)
  then show ?case
    by (cases c) (auto simp: visible_def ledger_post_def spec_check_def Let_def split: sum.splits)
qed (simp add: visible_def)

section \<open>The answers\<close>

definition clocks_ok :: "call list \<Rightarrow> ledger \<Rightarrow> bool" where
  "clocks_ok cs led \<longleftrightarrow> sorted (l_clock led # post_times cs)"

definition same_limits :: "gateway \<Rightarrow> ledger \<Rightarrow> bool" where
  "same_limits g led \<longleftrightarrow> rl.shows_log (l_clock led) (g_hits g) (l_requests led)"


lemma clocks_ok_Cons:
  "clocks_ok (Post po # cs) led \<longleftrightarrow> l_clock led \<le> po_now po \<and> sorted (l_clock led # post_times cs) \<and> sorted (po_now po # post_times cs)"
  "clocks_ok (Stack_check env # cs) led \<longleftrightarrow> clocks_ok cs led"
  by (auto simp: clocks_ok_def post_times_def)

lemma ledger_post_clock:
  "l_clock (snd (ledger_post cfg sha dump_len po led))
     = (if isl (validate_batch cfg dump_len (po_body po)) then l_clock led else po_now po)"
  by (simp add: ledger_post_def Let_def case_prod_beta split: sum.split)

lemma clocks_ok_step: "clocks_ok (c # cs) led \<Longrightarrow> clocks_ok cs (snd (ledger_call cfg sha dump_len c led))"
  by (cases c) (auto simp: clocks_ok_Cons ledger_post_clock, simp_all add: clocks_ok_def ledger_post_clock)

lemma monitor_step_frame [simp, frame_simps]:
  "g_hits (monitor_step cfg env g) = g_hits g" "g_recent (monitor_step cfg env g) = g_recent g"
  "g_emitter (monitor_step cfg env g) = g_emitter g" "g_accepted (monitor_step cfg env g) = g_accepted g"
  "g_emitted (monitor_step cfg env g) = g_emitted g"
  by (simp_all add: monitor_step_def case_prod_beta)

lemma post_answers:
  assumes "same_limits g led" "l_clock led \<le> po_now po"
  shows "fst (post_ingest cfg (po_jwt po) sha dump_len (po_now po) (po_envs po) (po_body po) (po_request po) (po_authz po) g)
      = fst (ledger_post cfg sha dump_len po led)"
    and "same_limits (snd (post_ingest cfg (po_jwt po) sha dump_len (po_now po) (po_envs po) (po_body po) (po_request po) (po_authz po) g))
           (snd (ledger_post cfg sha dump_len po led))"
proof -
  let ?ip = "client_ip cfg (po_request po)"
  note check = rl.check_refines [OF assms [unfolded same_limits_def], of "rate_limit_per_min cfg" ?ip]
  have "fst (post_ingest cfg (po_jwt po) sha dump_len (po_now po) (po_envs po) (po_body po) (po_request po) (po_authz po) g)
      = fst (ledger_post cfg sha dump_len po led)
    \<and> same_limits (snd (post_ingest cfg (po_jwt po) sha dump_len (po_now po) (po_envs po) (po_body po) (po_request po) (po_authz po) g))
           (snd (ledger_post cfg sha dump_len po led))"
  proof (cases "validate_batch cfg dump_len (po_body po)")
    case (Inr evs)
    show ?thesis
    proof (cases "fst (rate_check cfg (po_now po) (po_request po) g)")
      case True
      then show ?thesis
        using check Inr by (simp add: post_ingest_limited ledger_post_def same_limits_def Let_def case_prod_beta)
    next
      case False
      from post_ingest_accepted [OF Inr False, where lib = "po_jwt po" and sha = sha and envs = "po_envs po" and authz = "po_authz po"] show ?thesis
        using check Inr False by (auto simp: ledger_post_def same_limits_def Let_def case_prod_beta)
    qed
  qed (use assms(1) in \<open>simp add: post_ingest_def ledger_post_def\<close>)
  then show "fst (post_ingest cfg (po_jwt po) sha dump_len (po_now po) (po_envs po) (po_body po) (po_request po) (po_authz po) g)
      = fst (ledger_post cfg sha dump_len po led)"
    "same_limits (snd (post_ingest cfg (po_jwt po) sha dump_len (po_now po) (po_envs po) (po_body po) (po_request po) (po_authz po) g))
           (snd (ledger_post cfg sha dump_len po led))" by simp_all
qed

interpretation answers: simulation "serve_call cfg sha dump_len" "ledger_call cfg sha dump_len" clocks_ok same_limits
  for cfg sha dump_len
proof unfold_locales
  fix g led c cs
  assume a: "same_limits g led" "clocks_ok (c # cs) led"
  show "fst (serve_call cfg sha dump_len c g) = fst (ledger_call cfg sha dump_len c led)"
    using a by (cases c) (simp_all add: clocks_ok_Cons post_answers)
  show "same_limits (snd (serve_call cfg sha dump_len c g)) (snd (ledger_call cfg sha dump_len c led))"
    using a by (cases c) (simp_all add: clocks_ok_Cons post_answers, simp add: same_limits_def)
qed (rule clocks_ok_step)

lemma empty_limits: "same_limits empty_gateway (empty_ledger t)"
  by (simp add: same_limits_def empty_ledger_def empty_gateway_def hits_shows_empty)

lemma run_answers:
  assumes "sorted (post_times cs)"
  shows "List.map_filter id (fst (run_steps (serve_call cfg sha dump_len) cs empty_gateway))
    = verdicts (rate_limit_per_min cfg) (visible cfg dump_len cs) []"
proof -
  obtain t where "sorted (t # post_times cs)"
  proof (cases "post_times cs")
    case Nil
    then show ?thesis by (intro that [of 0]) simp
  next
    case (Cons u us)
    then show ?thesis using assms by (intro that [of u]) auto
  qed
  then have "clocks_ok cs (empty_ledger t)" by (simp add: clocks_ok_def empty_ledger_def)
  from answers.run_simulates(1) [OF empty_limits this, of cfg sha dump_len] show ?thesis
    using ledger_answers [of cfg sha dump_len cs "empty_ledger t"] by (simp add: empty_ledger_def)
qed

section \<open>The events\<close>

definition events_agree :: "settings \<Rightarrow> gateway \<Rightarrow> ledger \<Rightarrow> bool" where
  "events_agree cfg g led \<longleftrightarrow>
     emitter_ok (g_emitter g) \<and> shows_recent (dedupe_window_seconds cfg) (g_recent g) (l_seen led)
     \<and> g_accepted g = length (l_forwarded led) \<and> list_all2 (carries cfg) (g_emitted g) (l_forwarded led)"

lemma ingest_event_agrees:
  assumes "fields_ok ev" "events_agree cfg g led"
    and "within_capacity (dedupe_window_seconds cfg) (l_seen (ledger_event cfg sha env p ip ev led))"
  obtains g' where "ingest_event cfg sha env p ip ev g = (None, g')" "g_hits g' = g_hits g"
    "events_agree cfg g' (ledger_event cfg sha env p ip ev led)"
proof -
  let ?k = "signature sha ev (event_body ev) p ip" and ?w = "dedupe_window_seconds cfg"
  obtain dup r' where d: "is_duplicate ?w ?k (ee_now env) (g_recent g) = (dup, r')" by force
  have known: "shows_recent ?w (g_recent g) (l_seen led)" "within_capacity ?w (l_seen led @ [(ee_now env, ?k)])"
    using assms(2,3) by (simp_all add: events_agree_def ledger_event_def Let_def)
  note dup = is_duplicate_exact(1) [OF known d] and recent = is_duplicate_exact(2) [OF known d]
  show ?thesis
  proof (cases dup)
    case True
    let ?g' = "g\<lparr>g_recent := r', g_duplicate := Suc (g_duplicate g)\<rparr>"
    show ?thesis
    proof (rule that)
      show "ingest_event cfg sha env p ip ev g = (None, ?g')"
        using d True by (simp add: ingest_event_def)
      show "events_agree cfg ?g' (ledger_event cfg sha env p ip ev led)"
        using assms(2) recent dup True by (simp add: events_agree_def ledger_event_def Let_def)
    qed simp
  next
    case False
    let ?g0 = "g\<lparr>g_recent := r'\<rparr>"
    obtain out where out: "fst (emit_event cfg p env ev (g_emitter ?g0)) = Inr out" and f: "forward_event cfg env p ev ?g0 =
      (None, ?g0\<lparr>g_emitter := snd (emit_event cfg p env ev (g_emitter ?g0)), g_emitted := g_emitted ?g0 @ [out],
         g_fallback := (if fallback_active cfg (g_monitor ?g0) then log_event cfg p env ev (g_fallback ?g0)
                        else g_fallback ?g0),
         g_accepted := Suc (g_accepted ?g0)\<rparr>)" (is "_ = (None, ?g1)")
      by (rule forward_event_emits [OF assms(1)])
    have em: "emitter_ok (g_emitter g)" using assms(2) by (simp add: events_agree_def)
    have carried: "carries cfg out (env, p, ev)"
      by (rule emit_event_carries [OF assms(1) em, of cfg p env]) (use out in simp)
    show ?thesis
    proof (rule that)
      show "ingest_event cfg sha env p ip ev g = (None, ?g1)"
        using d False f by (simp add: ingest_event_def)
      show "events_agree cfg ?g1 (ledger_event cfg sha env p ip ev led)"
        using assms(2) recent dup False carried
        by (simp add: events_agree_def ledger_event_def Let_def emit_event_ok list_all2_appendI)
    qed simp
  qed
qed

lemma seen_grows_event: "\<exists>b. l_seen (ledger_event cfg sha env p ip ev led) = l_seen led @ b"
  by (simp add: ledger_event_def Let_def)

lemma seen_grows_events: "\<exists>b. l_seen (ledger_events cfg sha envs p ip i evs led) = l_seen led @ b"
proof (induction evs arbitrary: i led)
  case (Cons ev evs)
  then show ?case using seen_grows_event [of cfg sha "envs i" p ip ev led] by simp (metis append.assoc)
qed simp

lemma seen_grows_call: "\<exists>b. l_seen (snd (ledger_call cfg sha dump_len c led)) = l_seen led @ b"
proof (cases c)
  case (Post po)
  then show ?thesis
    using seen_grows_events by (simp add: ledger_post_def Let_def case_prod_beta split: sum.split) (metis ledger.select_convs(3) ledger.surjective ledger.update_convs(1,2))
qed simp

lemma seen_grows_run: "\<exists>b. l_seen (snd (run_steps (ledger_call cfg sha dump_len) cs led)) = l_seen led @ b"
proof (induction cs arbitrary: led)
  case (Cons c cs)
  then show ?case using seen_grows_call [of cfg sha dump_len c led] by simp (metis append.assoc)
qed simp

lemma ingest_events_agree:
  assumes "list_all fields_ok evs" "events_agree cfg g led"
    and "within_capacity (dedupe_window_seconds cfg) (l_seen (ledger_events cfg sha envs p ip i evs led))"
  shows "events_agree cfg (snd (ingest_events cfg sha envs p ip i evs g)) (ledger_events cfg sha envs p ip i evs led)"
  using assms
proof (induction evs arbitrary: i g led)
  case (Cons ev evs)
  have "within_capacity (dedupe_window_seconds cfg) (l_seen (ledger_event cfg sha (envs i) p ip ev led))"
    using Cons.prems(3) seen_grows_events within_capacity_prefix by (metis ledger_events.simps(2))
  then obtain g' where "ingest_event cfg sha (envs i) p ip ev g = (None, g')"
      "events_agree cfg g' (ledger_event cfg sha (envs i) p ip ev led)"
    using ingest_event_agrees [of ev cfg g led sha "envs i" p ip] Cons.prems by auto
  then show ?case using Cons.IH Cons.prems by simp
qed simp

lemma post_events:
  assumes "events_agree cfg g led" "fst (post_ingest cfg (po_jwt po) sha dump_len (po_now po) (po_envs po) (po_body po) (po_request po) (po_authz po) g)
      = fst (ledger_post cfg sha dump_len po led)"
    and "within_capacity (dedupe_window_seconds cfg) (l_seen (snd (ledger_post cfg sha dump_len po led)))"
  shows "events_agree cfg (snd (post_ingest cfg (po_jwt po) sha dump_len (po_now po) (po_envs po) (po_body po) (po_request po) (po_authz po) g))
           (snd (ledger_post cfg sha dump_len po led))"
proof (cases "validate_batch cfg dump_len (po_body po)")
  case (Inr evs)
  let ?p = "principal_from_bearer cfg (po_jwt po) (po_authz po)" and ?ip = "client_ip cfg (po_request po)"
  let ?g = "g\<lparr>g_hits := snd (rate_check cfg (po_now po) (po_request po) g)\<rparr>"
  let ?led = "led\<lparr>l_clock := po_now po, l_requests := snd (spec_check RATE_WINDOW_SECONDS (rate_limit_per_min cfg) ?ip (po_now po) (l_requests led))\<rparr>"
  have agree: "events_agree cfg ?g ?led" using assms(1) by (simp add: events_agree_def)
  note run = ingest_events_valid [OF validated_fields_ok [OF Inr], of cfg sha "po_envs po" ?p ?ip 0 ?g]
  note post = post_ingest_def ingest_def ledger_post_def Let_def case_prod_beta
  show ?thesis
  proof (cases "fst (rate_check cfg (po_now po) (po_request po) g)")
    case True
    then show ?thesis
      using assms(2) agree Inr by (simp add: post split: if_splits)
  next
    case False
    then have "\<not> fst (spec_check RATE_WINDOW_SECONDS (rate_limit_per_min cfg) ?ip (po_now po) (l_requests led))"
      using assms(2) run Inr by (simp add: post split: if_splits)
    then show ?thesis
      using ingest_events_agree [OF validated_fields_ok [OF Inr] agree, of sha "po_envs po" ?p ?ip 0] assms(3) False run Inr
      by (simp add: post)
  qed
qed (use assms(1) in \<open>simp add: post_ingest_def ledger_post_def\<close>)


definition service_ok :: "settings \<Rightarrow> (string \<Rightarrow> string) \<Rightarrow> (telemetry_event \<Rightarrow> nat) \<Rightarrow> call list \<Rightarrow> ledger \<Rightarrow> bool" where
  "service_ok cfg sha dump_len cs led \<longleftrightarrow>
     clocks_ok cs led \<and> within_capacity (dedupe_window_seconds cfg) (l_seen (snd (run_steps (ledger_call cfg sha dump_len) cs led)))"

definition gateway_agrees :: "settings \<Rightarrow> gateway \<Rightarrow> ledger \<Rightarrow> bool" where
  "gateway_agrees cfg g led \<longleftrightarrow> same_limits g led \<and> events_agree cfg g led"

interpretation service: simulation "serve_call cfg sha dump_len" "ledger_call cfg sha dump_len"
    "service_ok cfg sha dump_len" "gateway_agrees cfg" for cfg sha dump_len
proof unfold_locales
  fix g led c cs
  assume r: "gateway_agrees cfg g led" and k: "service_ok cfg sha dump_len (c # cs) led"
  then have a: "same_limits g led" "events_agree cfg g led" "clocks_ok (c # cs) led"
    by (simp_all add: gateway_agrees_def service_ok_def)
  show out: "fst (serve_call cfg sha dump_len c g) = fst (ledger_call cfg sha dump_len c led)"
    using a(1,3) by (rule answers.step_out)
  have few: "within_capacity (dedupe_window_seconds cfg) (l_seen (snd (ledger_call cfg sha dump_len c led)))"
    using k seen_grows_run within_capacity_prefix unfolding service_ok_def by (metis run_steps_Cons(2))
  have "events_agree cfg (snd (serve_call cfg sha dump_len c g)) (snd (ledger_call cfg sha dump_len c led))"
    using a(2) out few by (cases c) (simp_all add: post_events, simp add: events_agree_def)
  then show "gateway_agrees cfg (snd (serve_call cfg sha dump_len c g)) (snd (ledger_call cfg sha dump_len c led))"
    using answers.step_rel [OF a(1,3)] by (simp add: gateway_agrees_def)
next
  fix c cs led
  assume "service_ok cfg sha dump_len (c # cs) led"
  then show "service_ok cfg sha dump_len cs (snd (ledger_call cfg sha dump_len c led))"
    by (simp add: service_ok_def clocks_ok_step)
qed

lemma empty_agrees: "gateway_agrees cfg empty_gateway (empty_ledger t)"
  using empty_limits [of t]
  by (simp add: gateway_agrees_def events_agree_def empty_ledger_def) (simp add: empty_gateway_def)

text \<open>A run: the same batch three times within a minute, an outage, a body that is no batch; two requests a minute.\<close>

definition strict_settings :: settings where
  "strict_settings = default_settings\<lparr>rate_limit_per_min := 2\<rparr>"

definition boom_post :: "time \<Rightarrow> call" where
  "boom_post now = Post \<lparr>po_jwt = reject_all_jwt, po_now = now, po_envs = (\<lambda>i. quiet_env\<lparr>ee_now := now\<rparr>), po_body = boom_body,
     po_request = empty_request, po_authz = None\<rparr>"

definition sample_run :: "call list" where
  "sample_run = [boom_post 0, Stack_check outage_env, boom_post 1, boom_post 2,
     Post \<lparr>po_jwt = reject_all_jwt, po_now = 3, po_envs = (\<lambda>i. quiet_env), po_body = PNone, po_request = empty_request, po_authz = None\<rparr>,
     boom_post 61]"

lemma sample_times: "post_times sample_run = [0, 1, 2, 3, 61]"
  by (simp add: sample_run_def boom_post_def post_times_def)

lemma sample_verdicts:
  "verdicts 2 (visible strict_settings (\<lambda>ev. 40) sample_run) [] = [Status 204, Status 204, Status 429, Status 422, Status 204]"
  by code_simp

lemma sample_ledger:
  "map (\<lambda>(env, p, ev). (ee_now env, ev_message ev)) (l_forwarded (snd (run_steps (ledger_call strict_settings (\<lambda>s. s) (\<lambda>ev. 40)) sample_run (empty_ledger 0))))
     = [(0, ''boom''), (61, ''boom'')]"
  "map fst (l_seen (snd (run_steps (ledger_call strict_settings (\<lambda>s. s) (\<lambda>ev. 40)) sample_run (empty_ledger 0)))) = [0, 1, 61]"
  by code_simp+

section \<open>Properties\<close>

text \<open>C1: the answers of the ingest service are those of an ideal server.  Over any run of requests with
  non-decreasing clocks, mixed with health checks in any way, the answers are 422 for an invalid batch, 429 for a
  client with \<open>rate_limit_per_min\<close> accepted requests in the 60 seconds before, and 204 otherwise: they depend on
  nothing but the time, the client address and the validity of each request, whatever tokens say and whatever fails
  in the emitter, on the disk or in the stack.
\<close>

theorem answers_refine:
  assumes "sorted (post_times cs)"
  shows "List.map_filter id (fst (run_steps (serve_call cfg sha dump_len) cs empty_gateway))
    = verdicts (rate_limit_per_min cfg) (visible cfg dump_len cs) []"
  using assms by (rule run_answers)

theorem answers_refine_witness:
  "List.map_filter id (fst (run_steps (serve_call strict_settings (\<lambda>s. s) (\<lambda>ev. 40)) sample_run empty_gateway))
    = [Status 204, Status 204, Status 429, Status 422, Status 204]"
proof -
  have "rate_limit_per_min strict_settings = 2" by (simp add: strict_settings_def)
  then show ?thesis
    using answers_refine [of sample_run strict_settings "\<lambda>s. s" "\<lambda>ev. 40"] sample_verdicts
    by (simp add: sample_times)
qed

text \<open>C2: the gateway forwards what an ideal server forwards.  Over any run in which the clock does not go back and no
  deduplication window holds more than \<open>MAX_TRACKED_KEYS\<close> different signatures, the accepted events are, one for one and
  in order, those of the accepted requests whose signature was not seen less than the window before; each was handed to
  the emitter once, and what the emitter made of it tells exactly that event: its time, severity, text, trace and span
  identifiers and attributes, under its own service name or the shared one (or the same on standard output when no
  endpoint is set).  Nothing else becomes of it unless the SDK itself failed for this event.
\<close>

theorem forwarding_refines:
  assumes "sorted (t # post_times cs)"
    and "within_capacity (dedupe_window_seconds cfg)
           (l_seen (snd (run_steps (ledger_call cfg sha dump_len) cs (empty_ledger t))))"
  shows "let g = snd (run_steps (serve_call cfg sha dump_len) cs empty_gateway);
             led = snd (run_steps (ledger_call cfg sha dump_len) cs (empty_ledger t))
         in g_accepted g = length (l_forwarded led) \<and> list_all2 (carries cfg) (g_emitted g) (l_forwarded led)"
proof -
  have "service_ok cfg sha dump_len cs (empty_ledger t)"
    using assms by (simp add: service_ok_def clocks_ok_def empty_ledger_def)
  from service.run_simulates(2) [OF empty_agrees this] show ?thesis
    by (simp add: gateway_agrees_def events_agree_def Let_def)
qed

theorem forwarding_refines_witness:
  "\<exists>e0 e1 p0 p1 ev0 ev1. list_all2 (carries strict_settings)
       (g_emitted (snd (run_steps (serve_call strict_settings (\<lambda>s. s) (\<lambda>ev. 40)) sample_run empty_gateway)))
       [(e0, p0, ev0), (e1, p1, ev1)]
     \<and> ee_now e0 = 0 \<and> ee_now e1 = 61 \<and> ev_message ev0 = ''boom'' \<and> ev_message ev1 = ''boom''"
proof -
  let ?led = "snd (run_steps (ledger_call strict_settings (\<lambda>s. s) (\<lambda>ev. 40)) sample_run (empty_ledger 0))"
  have "length (l_seen ?led) = 3" using arg_cong [OF sample_ledger(2), of length] by simp
  then have "within_capacity (dedupe_window_seconds strict_settings) (l_seen ?led)"
    by (intro within_capacity_small) (simp_all only: sample_ledger(2), simp_all add: MAX_TRACKED_KEYS_def)
  moreover have "sorted (0 # post_times sample_run)" by (simp add: sample_times)
  ultimately have "list_all2 (carries strict_settings)
      (g_emitted (snd (run_steps (serve_call strict_settings (\<lambda>s. s) (\<lambda>ev. 40)) sample_run empty_gateway))) (l_forwarded ?led)"
    using forwarding_refines [of 0 sample_run strict_settings "\<lambda>s. s" "\<lambda>ev. 40"] by (simp only: Let_def)
  moreover obtain e0 p0 ev0 e1 p1 ev1 where "l_forwarded ?led = [(e0, p0, ev0), (e1, p1, ev1)]"
      "ee_now e0 = 0" "ee_now e1 = 61" "ev_message ev0 = ''boom''" "ev_message ev1 = ''boom''"
    using sample_ledger(1) by (auto simp: map_eq_Cons_conv)
  ultimately show ?thesis by metis
qed

end
