(* ===== verification/GwLifecycle.thy ===== *)
theory GwLifecycle
  imports GwService
begin

text \<open>
  The life of the process (\<open>lifespan\<close> of \<open>obs_gateway/main.py\<close>) as a state machine: the monitor task is
  created at start-up only when there are targets, requests are served while the application runs, the
  end of the lifespan first cancels the task and then flushes the emitter and closes the log.  The server
  delivers no request before start-up or once shutdown has begun (the ASGI lifespan protocol), and a cancelled
  task stops at an \<open>await\<close>, where a check has either changed nothing yet or is complete.
\<close>

section \<open>Phases and steps\<close>

datatype phase = Starting | Running | Stopping | Stopped

record process =
  phase :: phase
  monitor_task :: bool
  gw :: gateway
  flushed :: "provider list"

definition new_process :: process where
  "new_process = \<lparr>phase = Starting, monitor_task = False, gw = empty_gateway, flushed = []\<rparr>"

definition lifespan_start :: "settings \<Rightarrow> process \<Rightarrow> process" where
  "lifespan_start cfg s = s\<lparr>phase := Running, monitor_task := monitor_started cfg\<rparr>"

definition lifespan_cancel :: "process \<Rightarrow> process" where
  "lifespan_cancel s = s\<lparr>phase := Stopping, monitor_task := False\<rparr>"

definition lifespan_end :: "process \<Rightarrow> process" where
  "lifespan_end s = (let (out, g) = app_shutdown (gw s) in s\<lparr>phase := Stopped, gw := g, flushed := flushed s @ out\<rparr>)"

inductive life_step :: "settings \<Rightarrow> process \<Rightarrow> process \<Rightarrow> bool" for cfg where
  startup: "phase s = Starting \<Longrightarrow> life_step cfg s (lifespan_start cfg s)"
| request: "phase s = Running \<Longrightarrow> post_ingest cfg lib sha dump_len now envs body req authz (gw s) = (a, g')
    \<Longrightarrow> life_step cfg s (s\<lparr>gw := g'\<rparr>)"
| check: "phase s = Running \<Longrightarrow> monitor_task s \<Longrightarrow> life_step cfg s (s\<lparr>gw := monitor_step cfg env (gw s)\<rparr>)"
| cancel: "phase s = Running \<Longrightarrow> life_step cfg s (lifespan_cancel s)"
| shutdown: "phase s = Stopping \<Longrightarrow> life_step cfg s (lifespan_end s)"

inductive lives :: "settings \<Rightarrow> process \<Rightarrow> bool" for cfg where
  start: "lives cfg new_process"
| step: "lives cfg s \<Longrightarrow> life_step cfg s s' \<Longrightarrow> lives cfg s'"

inductive_cases life_stepE: "life_step cfg s s'"
inductive_simps stopped_step: "life_step cfg \<lparr>phase = Stopped, monitor_task = m, gw = g, flushed = ps\<rparr> s'"

section \<open>Where a process can be\<close>

text \<open>
  Until the end of the lifespan the gateway is one that only served; the monitor task exists in the running phase only,
  and only with targets; at the end what was flushed is what the shutdown of that gateway flushed.
\<close>

definition process_ok :: "settings \<Rightarrow> process \<Rightarrow> bool" where
  "process_ok cfg s \<longleftrightarrow>
     (case phase s of
        Starting \<Rightarrow> s = new_process
      | Running \<Rightarrow> monitor_task s = monitor_started cfg \<and> flushed s = [] \<and> serving cfg (gw s)
      | Stopping \<Rightarrow> \<not> monitor_task s \<and> flushed s = [] \<and> serving cfg (gw s)
      | Stopped \<Rightarrow> \<not> monitor_task s \<and> (\<exists>g. serving cfg g \<and> app_shutdown g = (flushed s, gw s)))"

lemma life_step_ok: "life_step cfg s s' \<Longrightarrow> process_ok cfg s \<Longrightarrow> process_ok cfg s'"
proof (erule life_stepE)
  fix lib sha dump_len now envs body req authz a g'
  assume "process_ok cfg s" "phase s = Running" "s' = s\<lparr>gw := g'\<rparr>"
    "post_ingest cfg lib sha dump_len now envs body req authz (gw s) = (a, g')"
  then show "process_ok cfg s'"
    by (auto simp: process_ok_def intro: serving.step serve_step.request)
next
  fix env
  assume "process_ok cfg s" "phase s = Running" "s' = s\<lparr>gw := monitor_step cfg env (gw s)\<rparr>"
  then show "process_ok cfg s'"
    by (auto simp: process_ok_def intro: serving.step serve_step.check)
next
  assume "process_ok cfg s" "phase s = Stopping" "s' = lifespan_end s"
  then show "process_ok cfg s'"
    by (auto simp: process_ok_def lifespan_end_def case_prod_beta Let_def intro!: exI [of _ "gw s"])
qed (auto simp: process_ok_def lifespan_start_def lifespan_cancel_def new_process_def intro: serving.start)

lemma lives_ok: "lives cfg s \<Longrightarrow> process_ok cfg s"
  by (induction rule: lives.induct) (auto simp: life_step_ok, simp add: process_ok_def, simp add: new_process_def)

text \<open>Only the health file is written by a check.\<close>

lemma write_record_other: "name \<noteq> name' \<Longrightarrow> file_at (fallback_log_dir cfg, name) (write_record cfg io name' rec fb) = file_at (fallback_log_dir cfg, name) fb"
  by (auto simp: write_record_def handler_for_def write_line_def file_at_def Let_def dict_simps split: option.splits prod.splits)

lemma check_keeps_events: "file_at (events_path cfg) (g_fallback (monitor_step cfg env g)) = file_at (events_path cfg) (g_fallback g)"
proof -
  have "EVENTS_FILE \<noteq> HEALTH_FILE" by (simp add: EVENTS_FILE_def HEALTH_FILE_def)
  then have "file_at (events_path cfg) (fold (record_transition cfg env mon) ts fb) = file_at (events_path cfg) fb" for mon ts fb
    by (induction ts arbitrary: fb) (auto simp: record_transition_def write_health_def events_path_def write_record_other split: prod.splits)
  then show ?thesis by (simp add: monitor_step_def check_once_def case_prod_beta Let_def)
qed

lemma no_components_inactive: "components mon = [] \<Longrightarrow> \<not> fallback_active cfg mon"
  by (simp add: fallback_active_def list_ex_iff)

text \<open>Without targets there is nothing to monitor.\<close>

lemma serving_no_targets:
  assumes "serving cfg g" "stack_targets cfg = []"
  shows "components (g_monitor g) = [] \<and> files (g_fallback g) = []"
  using assms(1)
proof (induction rule: serving.induct)
  case start
  show ?case by (simp add: empty_gateway_def new_fallback_def new_monitor_def)
next
  case (step g g')
  from step.hyps(2) show ?case
  proof (rule serve_stepE)
    fix lib sha dump_len now envs body req authz a
    assume p: "post_ingest cfg lib sha dump_len now envs body req authz g = (a, g')"
    show ?thesis
      using step.IH post_ingest_monitor [of cfg lib sha dump_len now envs body req authz g]
        post_ingest_no_fallback [OF no_components_inactive, of g cfg lib sha dump_len now envs body req authz]
      by (simp add: p)
  next
    fix env
    assume "g' = monitor_step cfg env g"
    then show ?thesis
      using step.IH assms(2) by (simp add: monitor_step_def check_once_def observe_all_def probe_all_def set_gauge_def)
  qed
qed

text \<open>A request that changes a local file was answered 204 and accepted an event.\<close>

lemma post_ingest_file_change:
  assumes "post_ingest cfg lib sha dump_len now envs body req authz g = (a, g')"
    and "file_at p (g_fallback g') \<noteq> file_at p (g_fallback g)"
  shows "a = Status 204" "g_accepted g < g_accepted g'"
proof -
  have "a = Status 204 \<and> g_accepted g < g_accepted g'"
  proof (cases "validate_batch cfg dump_len body")
    case (Inl e)
    then show ?thesis using assms by (simp add: post_ingest_def)
  next
    case (Inr evs)
    show ?thesis
    proof (cases "fst (rate_check cfg now req g)")
      case True
      then show ?thesis using assms post_ingest_limited [OF Inr True] by auto
    next
      case False
      let ?p = "principal_from_bearer cfg lib authz" and ?ip = "client_ip cfg req"
      have "fresh cfg sha envs ?p ?ip 0 evs (g_recent g) = [] \<Longrightarrow> g_fallback g' = g_fallback g"
        using assms(1) unfolding post_ingest_accepted [OF Inr False] by (auto simp: after_batch_def Let_def)
      then show ?thesis
        using assms unfolding post_ingest_accepted [OF Inr False] by (auto simp: after_batch_counts)
    qed
  qed
  then show "a = Status 204" "g_accepted g < g_accepted g'" by simp_all
qed

text \<open>A process that served one request and stopped.\<close>

definition running_example :: process where
  "running_example = (lifespan_start default_settings new_process)\<lparr>gw := after_boom\<rparr>"

definition stopped_example :: process where
  "stopped_example = lifespan_end (lifespan_cancel running_example)"

lemma gw_stopped: "g_emitted (gw stopped_example) = g_emitted after_boom"
  by (simp add: stopped_example_def running_example_def lifespan_cancel_def lifespan_end_def app_shutdown_def case_prod_beta Let_def)

lemma accepted_after_boom: "length (g_emitted after_boom) = 1"
  using reachable_ok [OF after_boom_reachable] after_boom_state(1) by (simp add: gateway_ok_def)

definition serve_boom :: "settings \<Rightarrow> gateway \<Rightarrow> answer \<times> gateway" where
  "serve_boom cfg g = post_ingest cfg reject_all_jwt (\<lambda>s. s) (\<lambda>ev. 40) 0 (\<lambda>i. quiet_env) boom_body empty_request None g"

text \<open>A process that found Loki down, and settings with a log directory but no targets.\<close>

definition outage_example :: process where
  "outage_example = (lifespan_start logged_settings new_process)\<lparr>gw := monitor_step logged_settings outage_env
     (gw (lifespan_start logged_settings new_process))\<rparr>"

definition bare_settings :: settings where
  "bare_settings = logged_settings\<lparr>stack_targets := []\<rparr>"

section \<open>Properties\<close>

text \<open>C14: a stopped process has lost nothing and stays stopped.  In every life of the process, once it has stopped,
  each provider that any record was exported through has been flushed, none twice, the emitter holds no
  provider and the log no open handler, the local files are those of the last serving state, and no step follows.\<close>

theorem process_flushes:
  assumes "lives cfg s" "phase s = Stopped"
  shows "\<exists>g. serving cfg g \<and> g_emitted (gw s) = g_emitted g \<and> files (g_fallback (gw s)) = files (g_fallback g)
    \<and> list_all (\<lambda>out. case out of Exported lgr rec \<Rightarrow> lgr \<in> set (flushed s) | _ \<Rightarrow> True) (g_emitted (gw s))
    \<and> distinct (flushed s) \<and> providers (g_emitter (gw s)) = [] \<and> handlers (g_fallback (gw s)) = []
    \<and> (\<forall>s'. \<not> life_step cfg s s')"
proof -
  obtain g where g: "serving cfg g" "app_shutdown g = (flushed s, gw s)"
    using lives_ok [OF assms(1)] assms(2) by (auto simp: process_ok_def)
  have "g_emitted (gw s) = g_emitted g"
    using arg_cong [OF g(2), of "\<lambda>x. g_emitted (snd x)"] by (simp add: app_shutdown_def case_prod_beta Let_def)
  moreover have "\<not> life_step cfg s s'" for s'
    using assms(2) by (auto elim: life_stepE)
  ultimately show ?thesis
    using shutdown_flushes_all [OF g(1)] g by (intro exI [of _ g]) (simp add: Let_def)
qed


theorem process_flushes_witness:
  "\<exists>g. serving default_settings g \<and> g_emitted (gw stopped_example) = g_emitted g \<and> length (g_emitted (gw stopped_example)) = 1
    \<and> distinct (flushed stopped_example)"
proof -
  have "lives default_settings stopped_example"
    unfolding stopped_example_def running_example_def
    by (intro lives.step [OF _ life_step.shutdown] lives.step [OF _ life_step.cancel]
        lives.step [OF _ life_step.request] lives.step [OF _ life_step.startup] lives.start)
      (simp_all add: new_process_def lifespan_start_def lifespan_cancel_def after_boom_def prod_eq_iff)
  moreover have "phase stopped_example = Stopped"
    by (simp add: stopped_example_def lifespan_end_def case_prod_beta Let_def)
  ultimately show ?thesis
    using process_flushes [of default_settings stopped_example] accepted_after_boom
    by (auto simp: gw_stopped)
qed

text \<open>C15: the events file is written in an outage only, and by requests only.  In every life of the process, a step that
  changes the events file is an ingest request answered 204 (neither a health check nor the start or the end of the
  lifespan), served while the monitor task runs and a trigger component is down, and it counts an event as accepted.\<close>

theorem events_only_in_outage:
  assumes "lives cfg s" "life_step cfg s s'"
    and "file_at (events_path cfg) (g_fallback (gw s')) \<noteq> file_at (events_path cfg) (g_fallback (gw s))"
  shows "phase s = Running \<and> monitor_task s \<and> fallback_active cfg (g_monitor (gw s))
    \<and> g_accepted (gw s) < g_accepted (gw s')
    \<and> (\<exists>lib sha dump_len now envs body req authz.
         post_ingest cfg lib sha dump_len now envs body req authz (gw s) = (Status 204, gw s') \<and> s' = s\<lparr>gw := gw s'\<rparr>)"
proof -
  let ?file = "\<lambda>s. file_at (events_path cfg) (g_fallback (gw s))"
  have ok: "process_ok cfg s" using assms(1) by (rule lives_ok)
  have request: "phase s = Running \<and> fallback_active cfg (g_monitor (gw s)) \<and> g_accepted (gw s) < g_accepted (gw s')
    \<and> (\<exists>lib sha dump_len now envs body req authz.
         post_ingest cfg lib sha dump_len now envs body req authz (gw s) = (Status 204, gw s') \<and> s' = s\<lparr>gw := gw s'\<rparr>)"
    using assms(2)
  proof (rule life_stepE)
    fix lib sha dump_len now envs body req authz a g'
    assume p: "phase s = Running" "s' = s\<lparr>gw := g'\<rparr>"
      "post_ingest cfg lib sha dump_len now envs body req authz (gw s) = (a, g')"
    from post_ingest_file_change [OF p(3), of "events_path cfg"] assms(3) p(2)
    have "a = Status 204" "g_accepted (gw s) < g_accepted g'" by simp_all
    then show ?thesis
      using p post_ingest_no_fallback [of cfg "gw s" lib sha dump_len now envs body req authz] assms(3)
      by (cases "fallback_active cfg (g_monitor (gw s))") (auto, blast)
  next
    fix env
    assume "s' = s\<lparr>gw := monitor_step cfg env (gw s)\<rparr>"
    then show ?thesis using assms(3) by (simp add: check_keeps_events)
  next
    assume "s' = lifespan_end s"
    then show ?thesis
      using assms(3) by (simp add: lifespan_end_def app_shutdown_def fallback_close_def file_at_def case_prod_beta Let_def)
  qed (use assms(3) in \<open>simp_all add: lifespan_start_def lifespan_cancel_def\<close>)
  moreover have "stack_targets cfg \<noteq> []"
    using request ok serving_no_targets [of cfg "gw s"] no_components_inactive [of "g_monitor (gw s)" cfg] by (auto simp: process_ok_def)
  ultimately show ?thesis using ok by (simp add: process_ok_def monitor_started_def)
qed

theorem events_only_in_outage_witness:
  "fallback_active logged_settings (g_monitor (gw outage_example))
   \<and> g_accepted (gw outage_example) < g_accepted (snd (serve_boom logged_settings (gw outage_example)))"
proof -
  have lives: "lives logged_settings outage_example"
    unfolding outage_example_def
    by (intro lives.step [OF _ life_step.check] lives.step [OF _ life_step.startup] lives.start)
      (simp_all add: new_process_def lifespan_start_def monitor_started_def logged_settings_def default_settings_def)
  have "life_step logged_settings outage_example (outage_example\<lparr>gw := snd (serve_boom logged_settings (gw outage_example))\<rparr>)"
    unfolding serve_boom_def
    by (rule life_step.request [OF _ surjective_pairing]) (simp add: outage_example_def lifespan_start_def)
  moreover have "rfile_lines (file_at (events_path logged_settings) (g_fallback (gw outage_example))) = []"
    by code_simp
  moreover have "length (rfile_lines (file_at (events_path logged_settings) (g_fallback (snd (serve_boom logged_settings (gw outage_example)))))) = 1"
    by code_simp
  ultimately show ?thesis
    using events_only_in_outage [OF lives] by fastforce
qed

text \<open>Without targets the gateway keeps no local log.  When no stack component is configured, the monitor task never runs,
  no component is ever known, the fallback is never active and no local file is ever written, in every life of the process.\<close>

theorem no_targets_no_files:
  assumes "lives cfg s" "stack_targets cfg = []"
  shows "\<not> monitor_task s \<and> components (g_monitor (gw s)) = [] \<and> \<not> fallback_active cfg (g_monitor (gw s))
    \<and> files (g_fallback (gw s)) = []"
proof -
  have quiet: "components (g_monitor g) = [] \<and> files (g_fallback g) = []" if "serving cfg g" for g
    using serving_no_targets [OF that assms(2)] .
  have "\<not> monitor_task s \<and> components (g_monitor (gw s)) = [] \<and> files (g_fallback (gw s)) = []"
  proof (cases "phase s")
    case Stopped
    then obtain g where g: "serving cfg g" "app_shutdown g = (flushed s, gw s)" "\<not> monitor_task s"
      using lives_ok [OF assms(1)] by (auto simp: process_ok_def)
    have "gw s = snd (app_shutdown g)" using g(2) by simp
    then show ?thesis
      using quiet [OF g(1)] g(3) by (simp add: app_shutdown_def fallback_close_def case_prod_beta Let_def)
  qed (use lives_ok [OF assms(1)] quiet serving.start [of cfg] assms(2) in
      \<open>auto simp: process_ok_def monitor_started_def new_process_def\<close>)
  then show ?thesis using no_components_inactive by blast
qed

theorem no_targets_no_files_witness:
  "files (g_fallback (gw ((lifespan_start bare_settings new_process)\<lparr>gw := snd (serve_boom bare_settings (gw (lifespan_start bare_settings new_process)))\<rparr>))) = []"
proof -
  have "life_step bare_settings (lifespan_start bare_settings new_process)
      ((lifespan_start bare_settings new_process)\<lparr>gw := snd (serve_boom bare_settings (gw (lifespan_start bare_settings new_process)))\<rparr>)"
    unfolding serve_boom_def
    by (rule life_step.request [OF _ surjective_pairing]) (simp add: lifespan_start_def)
  moreover have "lives bare_settings (lifespan_start bare_settings new_process)"
    by (rule lives.step [OF lives.start life_step.startup]) (simp add: new_process_def)
  ultimately have "lives bare_settings ((lifespan_start bare_settings new_process)\<lparr>gw := snd (serve_boom bare_settings (gw (lifespan_start bare_settings new_process)))\<rparr>)"
    by (rule lives.step [rotated])
  then show ?thesis by (rule no_targets_no_files [THEN conjunct2, THEN conjunct2, THEN conjunct2]) (simp add: bare_settings_def)
qed

end
