(* ===== verification/GwFront.thy ===== *)
theory GwFront
  imports GwRoutes GwLifecycle
begin

text \<open>
  The application against the abstract server of \<open>GwService\<close>: what a client of the HTTP interface is answered.  Each
  request is taken through routing, middleware and body limit; those that arrive at the ingest handler as a JSON body
  are the calls of \<open>GwService\<close>, and every other request leaves no trace in the service.
\<close>

section \<open>From requests to calls\<close>

datatype front_input = Client outside http_call | Probes check_env

definition front_step :: "settings \<Rightarrow> framework \<Rightarrow> front_input \<Rightarrow> app_state \<Rightarrow> reply option \<times> app_state" where
  "front_step cfg fw inp s =
     (case inp of
        Client w call \<Rightarrow> apfst Some (serve_http cfg fw w call s)
      | Probes env \<Rightarrow> (None, s\<lparr>app_gw := monitor_step cfg env (app_gw s)\<rparr>))"

text \<open>The call a request is to the ingest handler, if it gets there.\<close>

definition arrival :: "settings \<Rightarrow> framework \<Rightarrow> outside \<Rightarrow> http_call \<Rightarrow> post option" where
  "arrival cfg fw w call =
     (if call_method call = ''POST'' \<and> call_path call = ''/api/telemetry/v1/ingest'' \<and> \<not> preflight cfg fw call
      then case body_size_limit cfg ''http'' (call_headers call) (call_messages call) of
             Limited rs \<Rightarrow>
               (case reader fw call rs of
                  Inr (Some body) \<Rightarrow>
                    Some \<lparr>po_jwt = w_jwt w, po_now = w_now w, po_envs = w_envs w, po_body = body, po_request = call_request call,
                          po_authz = map_of (req_headers (call_request call)) ''authorization''\<rparr>
                | _ \<Rightarrow> None)
           | _ \<Rightarrow> None
      else None)"

definition calls_of :: "settings \<Rightarrow> framework \<Rightarrow> front_input \<Rightarrow> call list" where
  "calls_of cfg fw inp =
     (case inp of
        Client w call \<Rightarrow> (case arrival cfg fw w call of None \<Rightarrow> [] | Some po \<Rightarrow> [Post po])
      | Probes env \<Rightarrow> [Stack_check env])"

abbreviation all_calls :: "settings \<Rightarrow> framework \<Rightarrow> front_input list \<Rightarrow> call list" where
  "all_calls cfg fw inputs \<equiv> concat (map (calls_of cfg fw) inputs)"

definition reply_answer :: "reply \<Rightarrow> answer" where
  "reply_answer rep = (case rep of Reply c b \<Rightarrow> Status c | Crash e \<Rightarrow> Raised e)"

text \<open>The answers given to the requests that arrived.\<close>

definition ingest_answer :: "settings \<Rightarrow> framework \<Rightarrow> front_input \<times> reply option \<Rightarrow> answer option" where
  "ingest_answer cfg fw x =
     (case x of
        (Client w call, Some rep) \<Rightarrow> (if arrival cfg fw w call = None then None else Some (reply_answer rep))
      | _ \<Rightarrow> None)"

definition ingest_answers :: "settings \<Rightarrow> framework \<Rightarrow> front_input list \<Rightarrow> reply option list \<Rightarrow> answer list" where
  "ingest_answers cfg fw inputs outs = List.map_filter (ingest_answer cfg fw) (zip inputs outs)"

text \<open>One digest and one serialiser for the whole run; PyJWT may judge each request differently.\<close>

definition steady :: "(string \<Rightarrow> string) \<Rightarrow> (telemetry_event \<Rightarrow> nat) \<Rightarrow> front_input \<Rightarrow> bool" where
  "steady sha dump_len inp =
     (case inp of Client w call \<Rightarrow> w_sha w = sha \<and> w_dump_len w = dump_len | Probes env \<Rightarrow> True)"

section \<open>The application follows its calls\<close>

lemma run_steps_append:
  "run_steps f (is @ js) s =
     (fst (run_steps f is s) @ fst (run_steps f js (snd (run_steps f is s))), snd (run_steps f js (snd (run_steps f is s))))"
  by (induction "is" arbitrary: s) (simp_all add: prod_eq_iff)

lemma arrived_call:
  assumes "routes_literally fw" "arrival cfg fw w call = Some po" "serve_http cfg fw w call s = (rep, s')"
  shows "po_jwt po = w_jwt w"
    and "post_ingest cfg (po_jwt po) (w_sha w) (w_dump_len w) (po_now po) (po_envs po) (po_body po) (po_request po) (po_authz po) (app_gw s)
    = (reply_answer rep, app_gw s')"
proof -
  have c: "call_method call = ''POST''" "call_path call = ''/api/telemetry/v1/ingest''" "\<not> preflight cfg fw call"
    using assms(2) by (auto simp: arrival_def split: if_splits)
  obtain rs body where rs: "body_size_limit cfg ''http'' (call_headers call) (call_messages call) = Limited rs" "reader fw call rs = Inr (Some body)"
    and po: "po = \<lparr>po_jwt = w_jwt w, po_now = w_now w, po_envs = w_envs w, po_body = body, po_request = call_request call,
                    po_authz = map_of (req_headers (call_request call)) ''authorization''\<rparr>"
    using assms(2) by (auto simp: arrival_def split: if_splits body_outcome.splits sum.splits option.splits)
  show "po_jwt po = w_jwt w" by (simp add: po)
  from http_ingest_pipeline [OF assms(1) c assms(3)]
  show "post_ingest cfg (po_jwt po) (w_sha w) (w_dump_len w) (po_now po) (po_envs po) (po_body po) (po_request po) (po_authz po) (app_gw s)
    = (reply_answer rep, app_gw s')"
    by (auto simp: serve_ingest_def rs po reply_answer_def Let_def split: prod.splits answer.splits)
qed

lemma absent_call:
  assumes "routes_literally fw" "arrival cfg fw w call = None" "serve_http cfg fw w call s = (rep, s')"
  shows "app_gw s' = app_gw s"
proof (cases "call_method call = ''POST'' \<and> call_path call = ''/api/telemetry/v1/ingest'' \<and> \<not> preflight cfg fw call")
  case True
  then have c: "call_method call = ''POST''" "call_path call = ''/api/telemetry/v1/ingest''" "\<not> preflight cfg fw call" by simp_all
  from http_ingest_pipeline [OF assms(1) c assms(3)] show ?thesis
    using assms(2) c limit_not_http [of cfg "call_headers call" "call_messages call"]
    by (auto simp: serve_ingest_def arrival_def Let_def split: body_outcome.splits sum.splits option.splits asgi_error.splits)
qed (rule other_call_gateway [OF assms(1,3)])

lemma front_step_calls:
  assumes "routes_literally fw" "steady sha dump_len inp"
  shows "app_gw (snd (front_step cfg fw inp s)) = snd (run_steps (serve_call cfg sha dump_len) (calls_of cfg fw inp) (app_gw s))
    \<and> ingest_answers cfg fw [inp] [fst (front_step cfg fw inp s)]
        = List.map_filter id (fst (run_steps (serve_call cfg sha dump_len) (calls_of cfg fw inp) (app_gw s)))"
proof (cases inp)
  case (Client w call)
  obtain rep s' where h: "serve_http cfg fw w call s = (rep, s')" by force
  show ?thesis
  proof (cases "arrival cfg fw w call")
    case None
    then show ?thesis
      using absent_call [OF assms(1) None h]
      by (simp add: Client front_step_def calls_of_def ingest_answers_def ingest_answer_def h map_filter_Cons)
  next
    case (Some po)
    then show ?thesis
      using arrived_call(2) [OF assms(1) Some h] assms(2)
      by (simp add: Client front_step_def calls_of_def ingest_answers_def ingest_answer_def h steady_def map_filter_Cons)
  qed
qed (simp add: front_step_def calls_of_def ingest_answers_def ingest_answer_def map_filter_Cons)

lemma ingest_answers_Cons:
  "ingest_answers cfg fw (inp # inputs) (out # outs) = ingest_answers cfg fw [inp] [out] @ ingest_answers cfg fw inputs outs"
  by (simp add: ingest_answers_def map_filter_Cons split: option.split)

lemma map_filter_append: "List.map_filter f (xs @ ys) = List.map_filter f xs @ List.map_filter f ys"
  by (simp add: List.map_filter_def)

lemma front_follows_calls:
  assumes "routes_literally fw" "list_all (steady sha dump_len) inputs"
  shows "app_gw (snd (run_steps (front_step cfg fw) inputs s))
      = snd (run_steps (serve_call cfg sha dump_len) (all_calls cfg fw inputs) (app_gw s))
    \<and> ingest_answers cfg fw inputs (fst (run_steps (front_step cfg fw) inputs s))
      = List.map_filter id (fst (run_steps (serve_call cfg sha dump_len) (all_calls cfg fw inputs) (app_gw s)))"
  using assms(2)
proof (induction inputs arbitrary: s)
  case (Cons inp inputs)
  have st: "steady sha dump_len inp" "list_all (steady sha dump_len) inputs" using Cons.prems by simp_all
  from front_step_calls [OF assms(1) st(1), of cfg s] Cons.IH [OF st(2), of "snd (front_step cfg fw inp s)"]
  show ?case
    by (simp add: run_steps_append map_filter_append) (subst ingest_answers_Cons, simp add: id_def)
qed (simp add: ingest_answers_def)


section \<open>Properties\<close>

text \<open>A sample: the same batch three times within a minute and once later, a status request and an outage between
  them, a POST to a path that does not exist; two requests a minute.\<close>

definition client_at :: "time \<Rightarrow> string \<Rightarrow> string \<Rightarrow> front_input" where
  "client_at now method path =
     Client (example_outside\<lparr>w_now := now, w_envs := \<lambda>i. quiet_env\<lparr>ee_now := now\<rparr>\<rparr>) (example_call method path)"

definition front_run :: "front_input list" where
  "front_run = [client_at 0 ''POST'' ''/api/telemetry/v1/ingest'', client_at 0 ''GET'' ''/status'', Probes outage_env,
     client_at 1 ''POST'' ''/api/telemetry/v1/ingest'', client_at 1 ''POST'' ''/ingest'',
     client_at 2 ''POST'' ''/api/telemetry/v1/ingest'', client_at 61 ''POST'' ''/api/telemetry/v1/ingest'']"

text \<open>C3: end to end.  Whatever requests reach the HTTP interface, in any order and mixed with health checks, those that
  arrive at the ingest handler are answered as the ideal server answers them, 422 for an invalid batch, 429 for a client
  with \<open>rate_limit_per_min\<close> accepted requests in the 60 seconds before, 204 otherwise; and the number of events accepted
  is what the arriving requests alone account for: requests to other paths, preflights, oversized or unreadable bodies
  change nothing.\<close>

theorem http_answers_refine:
  assumes "routes_literally fw" "list_all (steady sha dump_len) inputs" "sorted (post_times (all_calls cfg fw inputs))"
  shows "let (outs, s) = run_steps (front_step cfg fw) inputs fresh_app
    in ingest_answers cfg fw inputs outs = verdicts (rate_limit_per_min cfg) (visible cfg dump_len (all_calls cfg fw inputs)) []
       \<and> app_gw s = snd (run_steps (serve_call cfg sha dump_len) (all_calls cfg fw inputs) empty_gateway)"
  using front_follows_calls [OF assms(1,2), of cfg fresh_app] run_answers [OF assms(3), of cfg sha dump_len]
  by (simp add: fresh_app_def case_prod_beta Let_def)

lemma front_run_calls: "all_calls strict_settings example_framework front_run = [boom_post 0, Stack_check outage_env, boom_post 1, boom_post 2, boom_post 61]"
  by (simp add: front_run_def client_at_def calls_of_def arrival_def preflight_def middleware_stack_def strict_settings_def
      default_settings_def example_call_def example_framework_def body_size_limit_def boom_reader_def boom_post_def
      example_outside_def empty_request_def)

lemma front_verdicts:
  "verdicts 2 (visible strict_settings (\<lambda>ev. 40) [boom_post 0, Stack_check outage_env, boom_post 1, boom_post 2, boom_post 61]) []
     = [Status 204, Status 204, Status 429, Status 204]"
  by code_simp

theorem http_answers_refine_witness:
  "ingest_answers strict_settings example_framework front_run
      (fst (run_steps (front_step strict_settings example_framework) front_run fresh_app))
    = [Status 204, Status 204, Status 429, Status 204]"
proof -
  have "routes_literally example_framework" by (simp add: routes_literally_def example_framework_def)
  moreover have "list_all (steady (\<lambda>s. s) (\<lambda>ev. 40)) front_run"
    by (simp add: front_run_def client_at_def steady_def example_outside_def)
  moreover have "sorted (post_times (all_calls strict_settings example_framework front_run))"
    unfolding front_run_calls by (simp add: post_times_def boom_post_def)
  moreover have "rate_limit_per_min strict_settings = 2" by (simp add: strict_settings_def)
  ultimately show ?thesis
    using http_answers_refine [of example_framework "\<lambda>s. s" "\<lambda>ev. 40" front_run strict_settings] front_verdicts
    by (simp add: front_run_calls case_prod_beta)
qed

end
