(* ===== verification/GwInterleave.thy ===== *)
theory GwInterleave
  imports GwFront
begin

text \<open>
  Many requests at once.  The event loop serves requests in turns: a request is read message by message, each turn of
  another request in between; its handler runs in one turn once its body is read (the handlers of status and identity
  await other services first, but read the gateway in one turn and change nothing); its duration is recorded in a later
  turn.  Every interleaving of these turns is shown to be one of whole requests, in the order in which they were handled.
\<close>

section \<open>Turns\<close>

text \<open>A connection: what it has read, with the count of \<open>limited_receive\<close>, or the reply not yet sent.\<close>

datatype connection =
    Reading outside http_call "asgi_message list" int "(asgi_error + asgi_message) list"
  | Replied outside http_call reply "string option" bool

record server =
  sv_app :: app_state
  sv_open :: "nat \<Rightarrow> connection option"
  sv_sent :: "(nat \<times> connection) list"

definition new_server :: server where
  "new_server = \<lparr>sv_app = fresh_app, sv_open = (\<lambda>i. None), sv_sent = []\<rparr>"

text \<open>What is answered before the body is read, and whether it is counted: preflights and declared lengths.\<close>

definition admit :: "settings \<Rightarrow> framework \<Rightarrow> http_call \<Rightarrow> (reply \<times> bool) option" where
  "admit cfg fw call =
     (case (case middleware_stack cfg of Cors options # ms \<Rightarrow> cors fw options call | _ \<Rightarrow> None) of
        Some c \<Rightarrow> Some (Reply c Empty, False)
      | None \<Rightarrow>
          (case body_size_limit cfg ''http'' (call_headers call) (call_messages call) of
             Too_large c \<Rightarrow> Some (Reply c (Detail ''request body too large''), True)
           | Raises e \<Rightarrow> Some (Crash e, True)
           | _ \<Rightarrow> None))"

definition observe_reply :: "outside \<Rightarrow> http_call \<Rightarrow> reply \<Rightarrow> string option \<Rightarrow> app_state \<Rightarrow> app_state" where
  "observe_reply w call rep label s =
     s\<lparr>app_durations := snd (record_request (call_method call) label (w_start w) (w_finish w)
         (case rep of Reply c b \<Rightarrow> Inr c | Crash e \<Rightarrow> Inl []) (app_durations s))\<rparr>"

text \<open>A turn, with the request or check that takes effect in it, if any, and its connection.\<close>

type_synonym effect = "nat option \<times> front_input"

inductive turn :: "settings \<Rightarrow> framework \<Rightarrow> server \<Rightarrow> effect list \<Rightarrow> server \<Rightarrow> bool" for cfg fw where
  refuse: "sv_open v i = None \<Longrightarrow> admit cfg fw call = Some (rep, counted) \<Longrightarrow>
    turn cfg fw v [(Some i, Client w call)] (v\<lparr>sv_open := (sv_open v)(i \<mapsto> Replied w call rep None counted)\<rparr>)"
| connect: "sv_open v i = None \<Longrightarrow> admit cfg fw call = None \<Longrightarrow>
    turn cfg fw v [] (v\<lparr>sv_open := (sv_open v)(i \<mapsto> Reading w call (call_messages call) 0 [])\<rparr>)"
| receive: "sv_open v i = Some (Reading w call (m # ms) n got) \<Longrightarrow>
    limited_receive (max_request_bytes cfg) m n = (r, n') \<Longrightarrow>
    turn cfg fw v [] (v\<lparr>sv_open := (sv_open v)(i \<mapsto> Reading w call ms n' (got @ [r]))\<rparr>)"
| handle: "sv_open v i = Some (Reading w call [] n got) \<Longrightarrow>
    route_call cfg fw w call got (sv_app v) = (rep, label, s') \<Longrightarrow>
    turn cfg fw v [(Some i, Client w call)] (v\<lparr>sv_app := s', sv_open := (sv_open v)(i \<mapsto> Replied w call rep label True)\<rparr>)"
| finish: "sv_open v i = Some (Replied w call rep label counted) \<Longrightarrow>
    turn cfg fw v [] (v\<lparr>sv_app := (if counted then observe_reply w call rep label (sv_app v) else sv_app v),
                        sv_open := (sv_open v)(i := None), sv_sent := sv_sent v @ [(i, Replied w call rep label counted)]\<rparr>)"
| probes: "turn cfg fw v [(None, Probes env)] (v\<lparr>sv_app := (sv_app v)\<lparr>app_gw := monitor_step cfg env (app_gw (sv_app v))\<rparr>\<rparr>)"

inductive turns :: "settings \<Rightarrow> framework \<Rightarrow> effect list \<Rightarrow> server \<Rightarrow> bool" for cfg fw where
  start: "turns cfg fw [] new_server"
| turn: "turns cfg fw tr v \<Longrightarrow> turn cfg fw v l v' \<Longrightarrow> turns cfg fw (tr @ l) v'"

lemma turns_silent: "turns cfg fw tr v \<Longrightarrow> turn cfg fw v [] v' \<Longrightarrow> turns cfg fw tr v'"
  using turns.turn [of cfg fw tr v "[]" v'] by simp

section \<open>A whole request is its turns in a row\<close>

lemma admitted:
  assumes "admit cfg fw call = Some (rep, counted)" "serve_http cfg fw w call s = (rep', s')"
  shows "rep' = rep \<and> app_gw s' = app_gw s"
  using assms limit_not_http [of cfg "call_headers call" "call_messages call"]
  by (auto simp: admit_def serve_http_def middleware_stack_def Let_def split: option.splits body_outcome.splits if_splits)

lemma unadmitted:
  assumes "admit cfg fw call = None" "serve_http cfg fw w call s = (rep', s')"
    and "route_call cfg fw w call (receive_run (max_request_bytes cfg) (call_messages call) 0) s = (rep, label, s1)"
  shows "rep' = rep \<and> app_gw s' = app_gw s1"
proof -
  have "body_size_limit cfg ''http'' (call_headers call) (call_messages call)
      = Limited (receive_run (max_request_bytes cfg) (call_messages call) 0)"
    using assms(1) limit_not_http [of cfg "call_headers call" "call_messages call"]
    by (auto simp: admit_def body_size_limit_def Let_def split: option.splits sum.splits if_splits)
  then show ?thesis
    using assms by (auto simp: admit_def serve_http_def middleware_stack_def Let_def split: option.splits if_splits)
qed

text \<open>The label a reply will be counted under.\<close>

lemma refused_label: "admit cfg fw call = Some (rep, True) \<Longrightarrow> route_label cfg fw call = None"
  using limit_not_http [of cfg "call_headers call" "call_messages call"]
  by (auto simp: admit_def route_label_def split: option.splits body_outcome.splits)

lemma handled_label:
  assumes "admit cfg fw call = None" "route_call cfg fw w call got s = (rep, label, s')"
  shows "label = route_label cfg fw call \<and> app_durations s' = app_durations s"
  using assms limit_not_http [of cfg "call_headers call" "call_messages call"] route_call_label [OF assms(2)] route_call_gateway [OF assms(2)]
  by (auto simp: admit_def route_label_def split: option.splits body_outcome.splits)

text \<open>The observations recorded so far show in the metrics page only.\<close>

lemma handle_same:
  assumes "app_gw s = app_gw t"
  shows "reply_answer (fst (handle cfg fw w call rs e s)) = reply_answer (fst (handle cfg fw w call rs e t))
    \<and> snd (handle cfg fw w call rs e s) = snd (handle cfg fw w call rs e t)"
  using assms by (cases e) (simp_all add: handle_def metrics_response_def reply_answer_def Let_def)

lemma route_call_same:
  assumes "app_gw s = app_gw t" "route_call cfg fw w call rs s = (rep, label, s')" "route_call cfg fw w call rs t = (rep1, label1, t')"
  shows "reply_answer rep = reply_answer rep1 \<and> app_gw s' = app_gw t'"
  using assms handle_same [OF assms(1), of cfg fw w call rs]
  by (auto simp: route_call_def Let_def case_prod_beta split: option.splits)

lemma observe_reply_gw [simp, frame_simps]: "app_gw (observe_reply w call rep label s) = app_gw s"
  by (simp add: observe_reply_def)

section \<open>The invariant of an interleaving\<close>

text \<open>The answers the whole requests of a connection are given, and those its client got or is about to get.\<close>

definition answers_for :: "nat \<Rightarrow> effect list \<Rightarrow> reply option list \<Rightarrow> answer list" where
  "answers_for i tr outs = List.map_filter (\<lambda>((j, inp), out). if j = Some i then map_option reply_answer out else None) (zip tr outs)"

definition conn_answer :: "connection \<Rightarrow> answer list" where
  "conn_answer c = (case c of Replied w call rep label counted \<Rightarrow> [reply_answer rep] | _ \<Rightarrow> [])"

lemma conn_answer_simps [simp]:
  "conn_answer (Reading w call ms n got) = []" "conn_answer (Replied w call rep label counted) = [reply_answer rep]"
  by (simp_all add: conn_answer_def)

definition sent_to :: "nat \<Rightarrow> server \<Rightarrow> answer list" where
  "sent_to i v = concat (map (conn_answer \<circ> snd) (filter (\<lambda>(j, c). j = i) (sv_sent v)))"

definition due :: "nat \<Rightarrow> server \<Rightarrow> answer list" where
  "due i v = (case sv_open v i of None \<Rightarrow> [] | Some c \<Rightarrow> conn_answer c)"

text \<open>What is recorded when a reply is sent.\<close>

definition conn_observation :: "settings \<Rightarrow> framework \<Rightarrow> connection \<Rightarrow> duration list" where
  "conn_observation cfg fw c =
     (case c of Replied w call (Reply sc b) label counted \<Rightarrow> if counted then [observation cfg fw w call sc] else [] | _ \<Rightarrow> [])"

definition reading_ok :: "settings \<Rightarrow> framework \<Rightarrow> connection \<Rightarrow> bool" where
  "reading_ok cfg fw c =
     (case c of
        Reading w call ms n got \<Rightarrow> admit cfg fw call = None
          \<and> got @ receive_run (max_request_bytes cfg) ms n = receive_run (max_request_bytes cfg) (call_messages call) 0
      | Replied w call rep label counted \<Rightarrow> counted \<longrightarrow> label = route_label cfg fw call)"

definition linearised :: "settings \<Rightarrow> framework \<Rightarrow> effect list \<Rightarrow> server \<Rightarrow> bool" where
  "linearised cfg fw tr v \<longleftrightarrow>
     app_gw (sv_app v) = app_gw (snd (run_steps (front_step cfg fw) (map snd tr) fresh_app))
     \<and> (\<forall>i c. sv_open v i = Some c \<longrightarrow> reading_ok cfg fw c)
     \<and> (\<forall>i. answers_for i tr (fst (run_steps (front_step cfg fw) (map snd tr) fresh_app)) = sent_to i v @ due i v)
     \<and> app_durations (sv_app v) = concat (map (conn_observation cfg fw \<circ> snd) (sv_sent v))"

lemma observe_counted:
  assumes "label = route_label cfg fw call"
  shows "app_durations (observe_reply w call rep label s) = app_durations s @ conn_observation cfg fw (Replied w call rep label True)"
  by (simp add: assms observe_reply_def record_request_def conn_observation_def observation_def split: reply.split)

lemma length_run_steps [simp]: "length (fst (run_steps f is s)) = length is"
  by (induction "is" arbitrary: s) simp_all

lemma answers_for_snoc:
  "length tr = length outs \<Longrightarrow> answers_for i (tr @ [(j, inp)]) (outs @ [out]) =
     answers_for i tr outs @ (if j = Some i then (case out of None \<Rightarrow> [] | Some rep \<Rightarrow> [reply_answer rep]) else [])"
  by (simp add: answers_for_def map_filter_append map_filter_Cons split: option.split)

lemma linear_effect:
  assumes "linearised cfg fw tr v" "front_step cfg fw inp (snd (run_steps (front_step cfg fw) (map snd tr) fresh_app)) = (out, s')"
    and "app_gw (sv_app v') = app_gw s'" "\<And>k c. sv_open v' k = Some c \<Longrightarrow> reading_ok cfg fw c"
    and "app_durations (sv_app v') = app_durations (sv_app v)" "sv_sent v' = sv_sent v"
    and "\<And>k. sent_to k v' @ due k v' =
      sent_to k v @ due k v @ (if j = Some k then (case out of None \<Rightarrow> [] | Some rep \<Rightarrow> [reply_answer rep]) else [])"
  shows "linearised cfg fw (tr @ [(j, inp)]) v'"
  using assms(1) unfolding linearised_def
  by (simp add: run_steps_append assms(2-) answers_for_snoc del: append_assoc)

lemma linear_silent:
  assumes "linearised cfg fw tr v" "app_gw (sv_app v') = app_gw (sv_app v)"
    and "\<And>k c. sv_open v' k = Some c \<Longrightarrow> reading_ok cfg fw c" "\<And>k. sent_to k v' @ due k v' = sent_to k v @ due k v"
    and "app_durations (sv_app v') = concat (map (conn_observation cfg fw \<circ> snd) (sv_sent v'))"
  shows "linearised cfg fw (tr @ []) v'"
  using assms by (simp add: linearised_def)


lemma due_open [simp]:
  "due k (v\<lparr>sv_open := f\<rparr>) = (case f k of None \<Rightarrow> [] | Some c \<Rightarrow> conn_answer c)"
  by (simp add: due_def)

lemma sent_to_frame [simp, frame_simps]:
  "sent_to k (v\<lparr>sv_open := f\<rparr>) = sent_to k v" "sent_to k (v\<lparr>sv_app := s\<rparr>) = sent_to k v" "due k (v\<lparr>sv_app := s\<rparr>) = due k v"
  by (simp_all add: sent_to_def due_def)

lemma linear_open: "linearised cfg fw tr v \<Longrightarrow> sv_open v i = Some c \<Longrightarrow> reading_ok cfg fw c"
  by (simp add: linearised_def)

lemma linear_durations:
  "linearised cfg fw tr v \<Longrightarrow> app_durations (sv_app v) = concat (map (conn_observation cfg fw \<circ> snd) (sv_sent v))"
  by (simp add: linearised_def)

text \<open>The two turns that change the application: a handler, and the sending of a reply.\<close>

lemma linear_handle:
  assumes "linearised cfg fw tr v" "sv_open v i = Some (Reading w call [] n got)"
    and "route_call cfg fw w call got (sv_app v) = (rep, label, s')"
  shows "linearised cfg fw (tr @ [(Some i, Client w call)])
    (v\<lparr>sv_app := s', sv_open := (sv_open v)(i \<mapsto> Replied w call rep label True)\<rparr>)"
proof -
  let ?s = "snd (run_steps (front_step cfg fw) (map snd tr) fresh_app)"
  obtain rep1 s1 where h: "serve_http cfg fw w call ?s = (rep1, s1)" by force
  obtain rep2 label2 s2 where r: "route_call cfg fw w call got ?s = (rep2, label2, s2)" by (rule prod_cases3)
  have got: "admit cfg fw call = None" "got = receive_run (max_request_bytes cfg) (call_messages call) 0"
    using linear_open [OF assms(1,2)] by (simp_all add: reading_ok_def)
  have same: "app_gw (sv_app v) = app_gw ?s" using assms(1) by (simp add: linearised_def)
  show ?thesis
    using unadmitted [OF got(1) h r [unfolded got(2)]] route_call_same [OF same assms(3) r] handled_label [OF got(1) assms(3)]
      linear_open [OF assms(1)]
    by (intro linear_effect [OF assms(1), where out = "Some rep1" and s' = s1])
      (auto simp: front_step_def h assms(2) reading_ok_def due_def [of _ v] split: if_splits)
qed

lemma linear_finish:
  assumes "linearised cfg fw tr v" "sv_open v i = Some (Replied w call rep label counted)"
  shows "linearised cfg fw (tr @ []) (v\<lparr>sv_app := (if counted then observe_reply w call rep label (sv_app v) else sv_app v),
    sv_open := (sv_open v)(i := None), sv_sent := sv_sent v @ [(i, Replied w call rep label counted)]\<rparr>)"
    (is "linearised _ _ _ ?v")
proof -
  have "due k ?v = (if k = i then [] else due k v)" "sent_to k ?v = sent_to k v @ (if k = i then [reply_answer rep] else [])" for k
    by (auto simp: due_def sent_to_def)
  moreover have "due i v = [reply_answer rep]" using assms(2) by (simp add: due_def)
  moreover have "app_durations (sv_app ?v) = app_durations (sv_app v) @ conn_observation cfg fw (Replied w call rep label counted)"
    using linear_open [OF assms]
    by (cases counted) (simp_all add: observe_counted reading_ok_def, simp add: conn_observation_def split: reply.split)
  ultimately show ?thesis
    using linear_open [OF assms(1)] linear_durations [OF assms(1)]
    by (intro linear_silent [OF assms(1)]) (auto split: if_splits)
qed

lemma linear_turn:
  assumes "turn cfg fw v l v'" "linearised cfg fw tr v"
  shows "linearised cfg fw (tr @ l) v'"
  using assms(1)
proof (cases rule: turn.cases)
  case (refuse i call rep counted w)
  let ?s = "snd (run_steps (front_step cfg fw) (map snd tr) fresh_app)"
  obtain rep' s' where h: "serve_http cfg fw w call ?s = (rep', s')" by force
  from admitted [OF refuse(4) h] show ?thesis
    unfolding refuse(1) using assms(2) linear_open [OF assms(2)]
    by (intro linear_effect [where out = "Some rep'" and s' = s'])
      (auto simp: front_step_def h refuse(2-4) refused_label linearised_def reading_ok_def due_def [of _ v] split: if_splits)
next
  case (connect i call w)
  show ?thesis
    unfolding connect(1) using linear_open [OF assms(2)] linear_durations [OF assms(2)]
    by (intro linear_silent [OF assms(2)]) (auto simp: connect(2-4) reading_ok_def due_def [of _ v] split: if_splits)
next
  case (receive i w call m ms n got r n')
  have "reading_ok cfg fw (Reading w call ms n' (got @ [r]))"
    using linear_open [OF assms(2) receive(3)] receive(4) by (simp add: reading_ok_def)
  then show ?thesis
    unfolding receive(1) using linear_open [OF assms(2)] linear_durations [OF assms(2)]
    by (intro linear_silent [OF assms(2)]) (auto simp: receive(2,3) due_def [of _ v] split: if_splits)
next
  case (handle i w call n got rep label s')
  show ?thesis unfolding handle(1,2) by (rule linear_handle [OF assms(2) handle(3,4)])
next
  case (finish i w call rep label counted)
  show ?thesis unfolding finish(1,2) by (rule linear_finish [OF assms(2) finish(3)])
next
  case (probes env)
  have "app_gw (sv_app v) = app_gw (snd (run_steps (front_step cfg fw) (map snd tr) fresh_app))"
    using assms(2) by (simp add: linearised_def)
  then show ?thesis
    unfolding probes(1) using linear_open [OF assms(2)]
    by (intro linear_effect [OF assms(2)]) (auto simp: front_step_def probes(2))
qed

lemma turns_linear: "turns cfg fw tr v \<Longrightarrow> linearised cfg fw tr v"
proof (induction rule: turns.induct)
  case start
  show ?case by (simp add: linearised_def new_server_def answers_for_def sent_to_def due_def fresh_app_def)
qed (rule linear_turn)


section \<open>Properties\<close>

text \<open>C4: concurrent requests are served as if one after the other.  Whatever turns of requests, health checks and replies
  the event loop interleaves, the gateway is in the state that the requests and checks, each served whole in the order
  in which they took effect, lead to; and each connection got, in order, the answers that this serial run gives it,
  but for one still to be sent; the durations recorded are those of the replies sent, one each, in the order of sending,
  preflights and crashes excepted.\<close>

theorem interleaving_serializes:
  assumes "turns cfg fw tr v"
  shows "let (outs, s) = run_steps (front_step cfg fw) (map snd tr) fresh_app
    in app_gw (sv_app v) = app_gw s \<and> (\<forall>i. answers_for i tr outs = sent_to i v @ due i v)
       \<and> app_durations (sv_app v) = concat (map (conn_observation cfg fw \<circ> snd) (sv_sent v))"
  using turns_linear [OF assms] by (simp add: linearised_def case_prod_beta)

text \<open>Two posts read at the same time; the second is handled first and uses up the limit of one request a minute.\<close>

definition once_settings :: settings where
  "once_settings = default_settings\<lparr>rate_limit_per_min := 1\<rparr>"

definition part_call :: http_call where
  "part_call = (example_call ''POST'' ''/api/telemetry/v1/ingest'')\<lparr>call_messages := [Http_request (Some ''a'')]\<rparr>"


definition two_posts :: "effect list" where
  "two_posts = [(Some 2, Client example_outside part_call), (Some 1, Client example_outside part_call)]"

lemma part_call_read:
  "admit once_settings example_framework part_call = None" "call_messages part_call = [Http_request (Some ''a'')]"
  "limited_receive (max_request_bytes once_settings) (Http_request (Some ''a'')) 0 = (Inr (Http_request (Some ''a'')), 1)"
  by code_simp+

lemma two_posts_interleaved: "\<exists>v. turns once_settings example_framework two_posts v \<and> (\<forall>i. sv_open v i = None)"
proof -
  let ?turns = "turns once_settings example_framework" and ?w = example_outside and ?c = part_call
  let ?m = "Http_request (Some ''a'')"
  note silent = turns_silent [of once_settings example_framework] and step = turns.turn [of once_settings example_framework]
  let ?r = "\<lambda>ms n got. Reading ?w ?c ms n got"
  define v1 where "v1 = new_server\<lparr>sv_open := (sv_open new_server)(1 \<mapsto> ?r [?m] 0 [])\<rparr>"
  define v2 where "v2 = v1\<lparr>sv_open := (sv_open v1)(2 \<mapsto> ?r [?m] 0 [])\<rparr>"
  define v3 where "v3 = v2\<lparr>sv_open := (sv_open v2)(2 \<mapsto> ?r [] 1 ([] @ [Inr ?m]))\<rparr>"
  define v4 where "v4 = v3\<lparr>sv_open := (sv_open v3)(1 \<mapsto> ?r [] 1 ([] @ [Inr ?m]))\<rparr>"
  obtain rep2 l2 s2 where h2: "route_call once_settings example_framework ?w ?c ([] @ [Inr ?m]) (sv_app v4) = (rep2, l2, s2)"
    by (rule prod_cases3)
  define v5 where "v5 = v4\<lparr>sv_app := s2, sv_open := (sv_open v4)(2 \<mapsto> Replied ?w ?c rep2 l2 True)\<rparr>"
  obtain rep1 l1 s1 where h1: "route_call once_settings example_framework ?w ?c ([] @ [Inr ?m]) (sv_app v5) = (rep1, l1, s1)"
    by (rule prod_cases3)
  define v6 where "v6 = v5\<lparr>sv_app := s1, sv_open := (sv_open v5)(1 \<mapsto> Replied ?w ?c rep1 l1 True)\<rparr>"
  define v7 where "v7 = v6\<lparr>sv_app := (if True then observe_reply ?w ?c rep1 l1 (sv_app v6) else sv_app v6),
                          sv_open := (sv_open v6)(1 := None), sv_sent := sv_sent v6 @ [(1, Replied ?w ?c rep1 l1 True)]\<rparr>"
  define v8 where "v8 = v7\<lparr>sv_app := (if True then observe_reply ?w ?c rep2 l2 (sv_app v7) else sv_app v7),
                          sv_open := (sv_open v7)(2 := None), sv_sent := sv_sent v7 @ [(2, Replied ?w ?c rep2 l2 True)]\<rparr>"
  note open_defs = v1_def v2_def v3_def v4_def v5_def v6_def v7_def new_server_def
  have "?turns [] v1" unfolding v1_def
    by (rule silent [OF turns.start turn.connect [where i = 1 and call = ?c, unfolded part_call_read(2)]])
      (simp_all add: new_server_def part_call_read)
  then have "?turns [] v2" unfolding v2_def
    by (rule silent [OF _ turn.connect [where i = 2 and call = ?c, unfolded part_call_read(2)]]) (simp_all add: open_defs part_call_read)
  then have "?turns [] v3" unfolding v3_def
    by (rule silent [OF _ turn.receive [where i = 2 and m = ?m and n = 0]]) (simp_all add: open_defs part_call_read)
  then have "?turns [] v4" unfolding v4_def
    by (rule silent [OF _ turn.receive [where i = 1 and m = ?m and n = 0]]) (simp_all add: open_defs part_call_read)
  then have "?turns ([] @ [(Some 2, Client ?w ?c)]) v5" unfolding v5_def
    by (rule step [OF _ turn.handle [OF _ h2, where i = 2 and n = 1]]) (simp add: v1_def v2_def v3_def v4_def)
  then have "?turns (([] @ [(Some 2, Client ?w ?c)]) @ [(Some 1, Client ?w ?c)]) v6" unfolding v6_def
    by (rule step [OF _ turn.handle [OF _ h1, where i = 1 and n = 1]]) (simp add: v1_def v2_def v3_def v4_def v5_def)
  then have "?turns two_posts v6" by (simp add: two_posts_def)
  then have "?turns two_posts v7" unfolding v7_def
    by (rule silent [OF _ turn.finish [where i = 1 and counted = True]]) (simp add: v6_def)
  then have "?turns two_posts v8" unfolding v8_def
    by (rule silent [OF _ turn.finish [where i = 2 and counted = True]]) (simp add: v5_def v6_def v7_def)
  moreover have "sv_open v8 i = None" for i by (simp add: v8_def open_defs)
  ultimately show ?thesis by blast
qed

lemma two_posts_serial:
  "answers_for 1 two_posts (fst (run_steps (front_step once_settings example_framework) (map snd two_posts) fresh_app)) = [Status 429]"
  "answers_for 2 two_posts (fst (run_steps (front_step once_settings example_framework) (map snd two_posts) fresh_app)) = [Status 204]"
  by code_simp+

theorem interleaving_serializes_witness:
  "\<exists>v. turns once_settings example_framework two_posts v \<and> sent_to 1 v = [Status 429] \<and> sent_to 2 v = [Status 204]"
proof -
  obtain v where v: "turns once_settings example_framework two_posts v" "\<forall>i. sv_open v i = None"
    using two_posts_interleaved by blast
  then have "due i v = []" for i by (simp add: due_def)
  then show ?thesis using interleaving_serializes [OF v(1)] two_posts_serial v(1) by (auto simp: case_prod_beta)
qed

end
