(* ===== verification/GwObserve.thy ===== *)
theory GwObserve
  imports GwInterleave
begin

text \<open>
  What the concurrent server shows of itself.  The metrics a scrape reads at any time are told from outside: the
  counters by the requests acknowledged so far, the gauges by what the last health check was answered.
\<close>

section \<open>What should be counted\<close>

text \<open>The events of a request that was acknowledged with 204.\<close>

definition acknowledged :: "settings \<Rightarrow> framework \<Rightarrow> front_input \<Rightarrow> reply option \<Rightarrow> nat" where
  "acknowledged cfg fw inp out =
     (case (inp, out) of
        (Client w call, Some rep) \<Rightarrow>
          (case arrival cfg fw w call of
             None \<Rightarrow> 0
           | Some po \<Rightarrow>
               if reply_answer rep \<noteq> Status 204 then 0
               else (case validate_batch cfg (w_dump_len w) (po_body po) of Inl e \<Rightarrow> 0 | Inr evs \<Rightarrow> length evs))
      | _ \<Rightarrow> 0)"

definition events_acknowledged :: "settings \<Rightarrow> framework \<Rightarrow> front_input list \<Rightarrow> reply option list \<Rightarrow> nat" where
  "events_acknowledged cfg fw inputs outs = sum_list (map2 (acknowledged cfg fw) inputs outs)"

text \<open>What the last health check says of a component: nothing before the first check, or if it is not monitored.\<close>

definition answers_2xx :: "string + int \<Rightarrow> bool" where
  "answers_2xx r = (case r of Inl exc \<Rightarrow> False | Inr sc \<Rightarrow> 200 \<le> sc \<and> sc < 300)"

definition check_sees :: "settings \<Rightarrow> check_env \<Rightarrow> string \<Rightarrow> bool option" where
  "check_sees cfg env c = map_option (\<lambda>url. answers_2xx (get_url env url)) (map_of (stack_targets cfg) c)"

fun last_seen :: "settings \<Rightarrow> front_input list \<Rightarrow> (string \<Rightarrow> bool option) \<Rightarrow> string \<Rightarrow> bool option" where
  "last_seen cfg [] seen = seen"
| "last_seen cfg (Client w call # inputs) seen = last_seen cfg inputs seen"
| "last_seen cfg (Probes env # inputs) seen = last_seen cfg inputs (check_sees cfg env)"

text \<open>The events accepted, by the counter, while the last check had found a trigger component down.\<close>

definition trigger_seen_down :: "settings \<Rightarrow> (string \<Rightarrow> bool option) \<Rightarrow> bool" where
  "trigger_seen_down cfg seen = list_ex (\<lambda>c. seen c = Some False) (fallback_trigger_components cfg)"

fun accepted_in_outage :: "settings \<Rightarrow> framework \<Rightarrow> front_input list \<Rightarrow> (string \<Rightarrow> bool option) \<Rightarrow> app_state \<Rightarrow> nat" where
  "accepted_in_outage cfg fw [] seen s = 0"
| "accepted_in_outage cfg fw (Client w call # inputs) seen s =
     (let s' = snd (front_step cfg fw (Client w call) s)
      in (if trigger_seen_down cfg seen then g_accepted (app_gw s') - g_accepted (app_gw s) else 0)
         + accepted_in_outage cfg fw inputs seen s')"
| "accepted_in_outage cfg fw (Probes env # inputs) seen s =
     accepted_in_outage cfg fw inputs (check_sees cfg env) (snd (front_step cfg fw (Probes env) s))"

abbreviation seen_up :: "settings \<Rightarrow> front_input list \<Rightarrow> string \<Rightarrow> bool option" where
  "seen_up cfg inputs \<equiv> last_seen cfg inputs (\<lambda>c. None)"

text \<open>A counter that was never incremented has no series.\<close>

definition counter_value :: "(string, nat) dict \<Rightarrow> string \<Rightarrow> nat" where
  "counter_value series label = (case map_of series label of None \<Rightarrow> 0 | Some n \<Rightarrow> n)"

lemma counter_value_series:
  "counter_value (ingest_series g) ''accepted'' = g_accepted g" "counter_value (ingest_series g) ''duplicate'' = g_duplicate g"
  by (auto simp: counter_value_def ingest_series_def)

section \<open>The counters\<close>

lemma post_ingest_counted:
  assumes "post_ingest cfg lib sha dump_len now envs body request authz g = (a, g')"
  shows "g_accepted g' + g_duplicate g' = g_accepted g + g_duplicate g
    + (if a \<noteq> Status 204 then 0 else (case validate_batch cfg dump_len body of Inl e \<Rightarrow> 0 | Inr evs \<Rightarrow> length evs))"
proof (cases "validate_batch cfg dump_len body")
  case (Inl e)
  then show ?thesis using assms by (auto simp: post_ingest_def)
next
  case (Inr evs)
  show ?thesis
  proof (cases "fst (rate_check cfg now request g)")
    case True
    then show ?thesis using assms by (auto simp: post_ingest_limited [OF Inr True])
  next
    case False
    show ?thesis
      using assms Inr length_fresh [of cfg sha envs "principal_from_bearer cfg lib authz" "client_ip cfg request" 0 evs "g_recent g"]
        post_ingest_accepted [OF Inr False, where lib = lib and sha = sha and envs = envs and authz = authz]
      by (auto simp: after_batch_counts)
  qed
qed

lemma front_step_counted:
  assumes "routes_literally fw" "front_step cfg fw inp s = (out, s')"
  shows "g_accepted (app_gw s') + g_duplicate (app_gw s')
    = g_accepted (app_gw s) + g_duplicate (app_gw s) + acknowledged cfg fw inp out"
proof (cases inp)
  case (Client w call)
  obtain rep where h: "serve_http cfg fw w call s = (rep, s')" and out: "out = Some rep"
    using assms(2) by (cases "serve_http cfg fw w call s") (auto simp: front_step_def Client)
  show ?thesis
  proof (cases "arrival cfg fw w call")
    case None
    then show ?thesis using absent_call [OF assms(1) None h] by (simp add: acknowledged_def Client out)
  next
    case (Some po)
    from post_ingest_counted [OF arrived_call(2) [OF assms(1) Some h]] show ?thesis by (simp add: acknowledged_def Client out Some)
  qed
next
  case (Probes env)
  then show ?thesis
    using assms(2) by (auto simp: front_step_def acknowledged_def monitor_step_def case_prod_beta)
qed

lemma run_counted:
  assumes "routes_literally fw"
  shows "g_accepted (app_gw (snd (run_steps (front_step cfg fw) inputs s))) + g_duplicate (app_gw (snd (run_steps (front_step cfg fw) inputs s)))
    = g_accepted (app_gw s) + g_duplicate (app_gw s) + events_acknowledged cfg fw inputs (fst (run_steps (front_step cfg fw) inputs s))"
proof (induction inputs arbitrary: s)
  case (Cons inp inputs)
  obtain out s' where h: "front_step cfg fw inp s = (out, s')" by force
  show ?case
    using Cons.IH [of s'] front_step_counted [OF assms h] by (simp add: run_steps_Cons h events_acknowledged_def)
qed (simp add: events_acknowledged_def)

section \<open>The gauges\<close>

text \<open>The monitor shows what was seen.\<close>

definition up_value :: "bool \<Rightarrow> nat" where
  "up_value b = (if b then 1 else 0)"

definition shows_seen :: "settings \<Rightarrow> (string \<Rightarrow> bool option) \<Rightarrow> monitor \<Rightarrow> bool" where
  "shows_seen cfg seen mon \<longleftrightarrow>
     (\<forall>c. map_option healthy (map_of (components mon) c) = seen c)
     \<and> (\<forall>c. map_of (component_up mon) c = map_option up_value (seen c))
     \<and> fallback_gauge mon = up_value (fallback_active cfg mon)"

lemma shows_seen_new: "shows_seen cfg (\<lambda>c. None) new_monitor"
  by (simp add: shows_seen_def new_monitor_def fallback_active_def up_value_def list_ex_iff)

definition up_agrees :: "monitor \<Rightarrow> bool" where
  "up_agrees mon \<longleftrightarrow> (\<forall>c. map_of (component_up mon) c = map_option up_value (map_option healthy (map_of (components mon) c)))"

lemma observe_up: "up_agrees (fst st) \<Longrightarrow> up_agrees (fst (observe r st))"
  by (cases st) (simp add: up_agrees_def observe_eq map_of_dict_update up_value_def)

lemma fold_observe_up: "up_agrees (fst st) \<Longrightarrow> up_agrees (fst (fold observe rs st))"
  by (induction rs arbitrary: st) (auto simp: observe_up)

lemma check_shows_seen:
  assumes "wf_dict (stack_targets cfg)" "shows_seen cfg seen mon" "\<And>c. seen c \<noteq> None \<Longrightarrow> map_of (stack_targets cfg) c \<noteq> None"
  shows "shows_seen cfg (check_sees cfg env)
    (fst (check_once cfg env (mon, fb)))"
proof -
  let ?mon' = "fst (check_once cfg env (mon, fb))"
  have "up_agrees ?mon'"
    using fold_observe_up [of "(mon, [])" "probe_all cfg env"] assms(2)
    by (simp add: check_once_def observe_all_def case_prod_beta Let_def shows_seen_def) (simp add: set_gauge_def up_agrees_def)
  then have up: "map_of (component_up ?mon') c = map_option up_value (map_option healthy (map_of (components ?mon') c))" for c
    by (simp add: up_agrees_def)
  have seen: "map_option healthy (map_of (components ?mon') c)
      = map_option (\<lambda>url. answers_2xx (get_url env url)) (map_of (stack_targets cfg) c)" for c
  proof (cases "map_of (stack_targets cfg) c")
    case None
    then have "map_of (components mon) c = None" using assms(2,3) by (metis option.map_disc_iff shows_seen_def)
    then show ?thesis using None by (simp add: check_once_components [OF assms(1)])
  qed (auto simp: check_once_components [OF assms(1)] probe_def answers_2xx_def split: sum.split)
  have "fallback_gauge ?mon' = up_value (fallback_active cfg ?mon')"
    by (simp add: check_once_def Let_def case_prod_beta) (simp add: set_gauge_def up_value_def)
  then show ?thesis
    unfolding shows_seen_def by (simp only: seen up check_sees_def) simp
qed

lemma front_step_monitor:
  assumes "routes_literally fw" "front_step cfg fw (Client w call) s = (out, s')"
  shows "g_monitor (app_gw s') = g_monitor (app_gw s)"
proof -
  obtain rep where h: "serve_http cfg fw w call s = (rep, s')"
    using assms(2) by (cases "serve_http cfg fw w call s") (auto simp: front_step_def)
  show ?thesis
  proof (cases "arrival cfg fw w call")
    case (Some po)
    show ?thesis using arrived_call(2) [OF assms(1) Some h] post_ingest_monitor by (metis snd_conv)
  qed (simp add: absent_call [OF assms(1) _ h])
qed

lemma run_shows_seen:
  assumes "routes_literally fw" "wf_dict (stack_targets cfg)"
    and "shows_seen cfg seen (g_monitor (app_gw s))" "\<And>c. seen c \<noteq> None \<Longrightarrow> map_of (stack_targets cfg) c \<noteq> None"
  shows "shows_seen cfg (last_seen cfg inputs seen) (g_monitor (app_gw (snd (run_steps (front_step cfg fw) inputs s))))"
  using assms(3,4)
proof (induction inputs arbitrary: s seen)
  case (Cons inp inputs)
  show ?case
  proof (cases inp)
    case (Client w call)
    obtain out s' where h: "front_step cfg fw (Client w call) s = (out, s')" by force
    show ?thesis
      using Cons.IH [of seen s'] Cons.prems front_step_monitor [OF assms(1) h] by (simp add: run_steps_Cons Client h)
  next
    case (Probes env)
    have "shows_seen cfg (check_sees cfg env)
        (g_monitor (app_gw (snd (front_step cfg fw (Probes env) s))))"
      using check_shows_seen [OF assms(2) Cons.prems, of env "g_fallback (app_gw s)"]
      by (simp add: front_step_def monitor_step_def case_prod_beta)
    then show ?thesis by (simp add: run_steps_Cons Probes) (rule Cons.IH, assumption, simp add: check_sees_def)
  qed
qed simp

lemma active_seen:
  assumes "shows_seen cfg seen mon"
  shows "fallback_active cfg mon \<longleftrightarrow> trigger_seen_down cfg seen"
proof -
  have "seen c = map_option healthy (map_of (components mon) c)" for c using assms by (simp add: shows_seen_def)
  then have "(case map_of (components mon) c of None \<Rightarrow> False | Some h \<Rightarrow> \<not> healthy h) \<longleftrightarrow> seen c = Some False" for c
    by (simp split: option.split)
  then show ?thesis by (simp add: fallback_active_def trigger_seen_down_def list_ex_iff)
qed

section \<open>The events of an outage\<close>

lemma write_record_events: "fallback_events (write_record cfg io name rec fb) = fallback_events fb"
proof -
  have "fallback_events (snd (handler_for cfg io name fb)) = fallback_events fb"
    by (simp add: handler_for_def Let_def split: option.splits)
  moreover have "fallback_events (write_line path l fb') = fallback_events fb'" for path l fb'
    by (simp add: write_line_def split: option.splits)
  ultimately show ?thesis by (auto simp: write_record_def split: prod.splits option.splits)
qed

lemma log_event_events: "fallback_events (log_event cfg p env ev fb) = Suc (fallback_events fb)"
  by (simp add: log_event_def write_event_def Let_def write_record_events)

lemma log_events_events: "fallback_events (fold (\<lambda>(j, ev). log_event cfg p (envs j) ev) fs fb) = fallback_events fb + length fs"
  by (induction fs arbitrary: fb) (auto simp: log_event_events)

lemma post_ingest_logged:
  assumes "post_ingest cfg lib sha dump_len now envs body request authz g = (a, g')"
  shows "fallback_events (g_fallback g') = fallback_events (g_fallback g)
    + (if fallback_active cfg (g_monitor g) then g_accepted g' - g_accepted g else 0)"
proof (cases "validate_batch cfg dump_len body")
  case (Inl e)
  then show ?thesis using assms by (auto simp: post_ingest_def)
next
  case (Inr evs)
  show ?thesis
  proof (cases "fst (rate_check cfg now request g)")
    case True
    then show ?thesis using assms by (auto simp: post_ingest_limited [OF Inr True])
  next
    case False
    show ?thesis
      using assms unfolding post_ingest_accepted [OF Inr False]
      by (auto simp: after_batch_counts) (auto simp: after_batch_def Let_def case_prod_beta log_events_events)
  qed
qed

lemma monitor_step_events: "fallback_events (g_fallback (monitor_step cfg env g)) = fallback_events (g_fallback g)"
proof -
  have "fallback_events (record_transition cfg env mon t fb) = fallback_events fb" for mon t fb
    by (simp add: record_transition_def write_health_def write_record_events split: prod.splits)
  then have "fallback_events (fold (record_transition cfg env mon) ts fb) = fallback_events fb" for mon ts fb
    by (induction ts arbitrary: fb) auto
  then show ?thesis by (simp add: monitor_step_def check_once_def case_prod_beta Let_def)
qed

lemma front_step_logged:
  assumes "routes_literally fw" "front_step cfg fw (Client w call) s = (out, s')"
  shows "fallback_events (g_fallback (app_gw s')) = fallback_events (g_fallback (app_gw s))
    + (if fallback_active cfg (g_monitor (app_gw s)) then g_accepted (app_gw s') - g_accepted (app_gw s) else 0)"
proof -
  obtain rep where h: "serve_http cfg fw w call s = (rep, s')"
    using assms(2) by (cases "serve_http cfg fw w call s") (auto simp: front_step_def)
  show ?thesis
  proof (cases "arrival cfg fw w call")
    case (Some po)
    show ?thesis by (rule post_ingest_logged [OF arrived_call(2) [OF assms(1) Some h]])
  qed (simp add: absent_call [OF assms(1) _ h])
qed

lemma run_logged:
  assumes "routes_literally fw" "wf_dict (stack_targets cfg)"
    and "shows_seen cfg seen (g_monitor (app_gw s))" "\<And>c. seen c \<noteq> None \<Longrightarrow> map_of (stack_targets cfg) c \<noteq> None"
  shows "fallback_events (g_fallback (app_gw (snd (run_steps (front_step cfg fw) inputs s))))
    = fallback_events (g_fallback (app_gw s)) + accepted_in_outage cfg fw inputs seen s"
  using assms(3,4)
proof (induction inputs arbitrary: s seen)
  case (Cons inp inputs)
  show ?case
  proof (cases inp)
    case (Client w call)
    obtain out s' where h: "front_step cfg fw (Client w call) s = (out, s')" by force
    show ?thesis
      using Cons.IH [of seen s'] Cons.prems front_step_monitor [OF assms(1) h] front_step_logged [OF assms(1) h]
        active_seen [OF Cons.prems(1)]
      by (simp add: run_steps_Cons Client h Let_def)
  next
    case (Probes env)
    let ?s' = "snd (front_step cfg fw (Probes env) s)"
    have "shows_seen cfg (check_sees cfg env) (g_monitor (app_gw ?s'))"
      using check_shows_seen [OF assms(2) Cons.prems, of env "g_fallback (app_gw s)"]
      by (simp add: front_step_def monitor_step_def case_prod_beta)
    moreover have "\<And>c. check_sees cfg env c \<noteq> None \<Longrightarrow> map_of (stack_targets cfg) c \<noteq> None" by (simp add: check_sees_def)
    ultimately have "fallback_events (g_fallback (app_gw (snd (run_steps (front_step cfg fw) inputs ?s'))))
        = fallback_events (g_fallback (app_gw ?s')) + accepted_in_outage cfg fw inputs (check_sees cfg env) ?s'"
      by (rule Cons.IH)
    then show ?thesis by (simp add: run_steps_Cons Probes) (simp add: front_step_def monitor_step_events)
  qed
qed simp

section \<open>The concurrent server\<close>

lemma turn_serving:
  assumes "turn cfg fw v l v'" "serving cfg (app_gw (sv_app v))"
  shows "serving cfg (app_gw (sv_app v'))"
  using assms(1)
proof (cases rule: turn.cases)
  case (handle i w call n got rep label s')
  then show ?thesis using assms(2) route_call_gateway [OF handle(4)] by (auto intro: serving.step)
next
  case (probes env)
  then show ?thesis using assms(2) by (auto intro: serving.step serve_step.check)
qed (use assms(2) in \<open>auto\<close>)

lemma turns_serving: "turns cfg fw tr v \<Longrightarrow> serving cfg (app_gw (sv_app v))"
  by (induction rule: turns.induct) (auto simp: new_server_def fresh_app_def intro: serving.start turn_serving)

section \<open>Properties\<close>

text \<open>C6: the metrics tell the truth, at any moment of any interleaving of requests and checks.  The events counted, accepted and
  duplicate, are those of the requests acknowledged with 204, and the accepted ones were all handed to the emitter;
  \<open>obs_stack_component_up\<close> has exactly the components the last health check probed, 1 for those it saw answer 2xx;
  \<open>obs_fallback_active\<close> is 1 exactly when that check saw a trigger component down, and \<open>obs_fallback_events_total\<close> counts
  the events accepted while such a check was the last one.  Both say so of the outage, not of the file: with the default, empty
  log directory they have the same values and no local file exists.\<close>

theorem metrics_truthful:
  assumes "turns cfg fw tr v" "routes_literally fw" "wf_dict (stack_targets cfg)"
  shows "let inputs = map snd tr;
             outs = fst (run_steps (front_step cfg fw) inputs fresh_app);
             r = registry_of (app_durations (sv_app v)) (app_gw (sv_app v));
             count = counter_value (obs_ingest_events_total r)
         in count ''accepted'' = length (g_emitted (app_gw (sv_app v)))
            \<and> count ''accepted'' + count ''duplicate'' = events_acknowledged cfg fw inputs outs
            \<and> (\<forall>c. map_of (obs_stack_component_up r) c = map_option up_value (seen_up cfg inputs c))
            \<and> obs_fallback_active r = up_value (trigger_seen_down cfg (seen_up cfg inputs))
            \<and> obs_fallback_events_total r = accepted_in_outage cfg fw inputs (\<lambda>c. None) fresh_app
            \<and> (fallback_log_dir cfg = [] \<longrightarrow> files (g_fallback (app_gw (sv_app v))) = [])"
proof -
  let ?s = "snd (run_steps (front_step cfg fw) (map snd tr) fresh_app)"
  have same: "app_gw (sv_app v) = app_gw ?s" using turns_linear [OF assms(1)] by (simp add: linearised_def)
  have ok: "gateway_ok cfg (app_gw (sv_app v))"
    by (rule reachable_ok [OF serving_reachable [OF turns_serving [OF assms(1)]]])
  then have "length (g_emitted (app_gw (sv_app v))) = g_accepted (app_gw (sv_app v))" by (simp add: gateway_ok_def)
  moreover have "g_accepted (app_gw ?s) + g_duplicate (app_gw ?s)
      = events_acknowledged cfg fw (map snd tr) (fst (run_steps (front_step cfg fw) (map snd tr) fresh_app))"
    using run_counted [OF assms(2), of cfg "map snd tr" fresh_app] by (simp add: fresh_app_def empty_gateway_def)
  moreover have start: "shows_seen cfg (\<lambda>c. None) (g_monitor (app_gw fresh_app))"
    by (simp add: fresh_app_def empty_gateway_def shows_seen_new)
  have seen: "shows_seen cfg (seen_up cfg (map snd tr)) (g_monitor (app_gw ?s))"
    by (rule run_shows_seen [OF assms(2,3) start]) simp
  have "fallback_events (g_fallback (app_gw ?s)) = accepted_in_outage cfg fw (map snd tr) (\<lambda>c. None) fresh_app"
    using run_logged [OF assms(2,3) start, of "map snd tr"] by (simp add: fresh_app_def empty_gateway_def new_fallback_def)
  moreover have "files (g_fallback (app_gw (sv_app v))) = []" if "fallback_log_dir cfg = []"
    using ok that by (cases "files (g_fallback (app_gw (sv_app v)))") (auto simp: gateway_ok_def files_ok_def entry_ok_def)
  ultimately show ?thesis
    using active_seen [OF seen] seen by (simp add: registry_of_def counter_value_series same shows_seen_def)
qed

definition watched_posts :: "effect list" where
  "watched_posts = two_posts @ [(None, Probes outage_env)]"

lemma watched_acknowledged:
  "events_acknowledged once_settings example_framework (map snd watched_posts)
     (fst (run_steps (front_step once_settings example_framework) (map snd watched_posts) fresh_app)) = 1"
  by code_simp

theorem metrics_truthful_witness:
  "\<exists>v r. turns once_settings example_framework watched_posts v \<and> r = registry_of (app_durations (sv_app v)) (app_gw (sv_app v))
     \<and> counter_value (obs_ingest_events_total r) ''accepted'' + counter_value (obs_ingest_events_total r) ''duplicate'' = 1
     \<and> map_of (obs_stack_component_up r) ''loki'' = Some 0 \<and> obs_fallback_active r = 1
     \<and> files (g_fallback (app_gw (sv_app v))) = []"
proof -
  obtain v0 where "turns once_settings example_framework two_posts v0" using two_posts_interleaved by blast
  then obtain v where v: "turns once_settings example_framework watched_posts v"
    unfolding watched_posts_def using turns.turn [OF _ turn.probes] by blast
  have lit: "routes_literally example_framework" by (simp add: routes_literally_def example_framework_def)
  have wf: "wf_dict (stack_targets once_settings)" by (simp add: once_settings_def default_settings_def wf_dict_def)
  have seen: "seen_up once_settings (map snd watched_posts) ''loki'' = Some False"
    by (simp add: watched_posts_def two_posts_def once_settings_def default_settings_def outage_env_def answers_2xx_def check_sees_def)
  moreover have "''loki'' \<in> set (fallback_trigger_components once_settings)" by (simp add: once_settings_def default_settings_def)
  ultimately have "trigger_seen_down once_settings (seen_up once_settings (map snd watched_posts))"
    unfolding trigger_seen_down_def list_ex_iff by blast
  moreover have "fallback_log_dir once_settings = []" by (simp add: once_settings_def default_settings_def)
  ultimately show ?thesis
    using metrics_truthful [OF v lit wf] v watched_acknowledged seen
    by (intro exI [of _ v] exI [of _ "registry_of (app_durations (sv_app v)) (app_gw (sv_app v))"]) (simp add: Let_def up_value_def)
qed

end
