(* ===== verification/GwJournal.thy ===== *)
theory GwJournal
  imports GwObserve
begin

text \<open>
  What is accepted during an outage is written down.  The journal of the ideal server of \<open>GwService\<close>, which also knows what
  the last health check was answered, holds the events it forwards while a trigger component is down; that journal,
  line by line, is what the concurrent server has written to the events file, through the rotation, which may drop the oldest lines.
\<close>

section \<open>The journal\<close>

abbreviation trigger_down :: "settings \<Rightarrow> check_env \<Rightarrow> bool" where
  "trigger_down cfg env \<equiv> trigger_seen_down cfg (check_sees cfg env)"

fun outage_journal ::
  "settings \<Rightarrow> (string \<Rightarrow> string) \<Rightarrow> (telemetry_event \<Rightarrow> nat) \<Rightarrow> call list \<Rightarrow> ledger \<Rightarrow> bool
   \<Rightarrow> (event_env \<times> principal \<times> telemetry_event) list" where
  "outage_journal cfg sha dump_len [] led down = []"
| "outage_journal cfg sha dump_len (Post po # cs) led down =
     (let led' = snd (ledger_post cfg sha dump_len po led)
      in (if down then drop (length (l_forwarded led)) (l_forwarded led') else [])
         @ outage_journal cfg sha dump_len cs led' down)"
| "outage_journal cfg sha dump_len (Stack_check env # cs) led down =
     outage_journal cfg sha dump_len cs led (trigger_down cfg env)"

text \<open>What a line says of an event, to whoever reads it: the JSON object of its record, with its time.\<close>

definition tells_event :: "(string \<Rightarrow> string) \<Rightarrow> string \<Rightarrow> event_env \<times> principal \<times> telemetry_event \<Rightarrow> bool" where
  "tells_event ft line x \<longleftrightarrow>
     (let (env, p, ev) = x
      in json_loads ft line = Some (Inr (PDict
           ((''time'', PStr (ee_time env)) # fallback_record ev (event_body ev) (event_attributes ev p)))))"

text \<open>The log directory opens for every event.\<close>

definition disk_ok :: "call \<Rightarrow> bool" where
  "disk_ok c \<longleftrightarrow> (case c of Post po \<Rightarrow> (\<forall>j. ee_io (po_envs po j) = None) | Stack_check env \<Rightarrow> True)"

abbreviation write_lines :: "settings \<Rightarrow> string list \<Rightarrow> rfile \<Rightarrow> rfile" where
  "write_lines cfg \<equiv> fold (append_line (fallback_log_max_bytes cfg) (fallback_log_backup_count cfg))"

lemma write_lines_kept:
  "suffix (rfile_lines (write_lines cfg ls empty_file)) ls"
  "fallback_log_max_bytes cfg \<le> 0 \<Longrightarrow> rfile_lines (write_lines cfg ls empty_file) = ls"
proof -
  show "suffix (rfile_lines (write_lines cfg ls empty_file)) ls"
    using rotated.fold_suffix [of _ _ ls empty_file] by simp
  show "rfile_lines (write_lines cfg ls empty_file) = ls" if "fallback_log_max_bytes cfg \<le> 0"
    unfolding append_line_nonpos [OF that] using unrotated.fold_keeps [of _ ls empty_file] by simp
qed

lemma event_line_tells: "tells_event ft (event_line p env ev) (env, p, ev)"
  unfolding tells_event_def using fallback_line_reads_back [of ft p env ev] by auto

section \<open>One request\<close>

text \<open>The events that pass deduplication are those the ledger forwards.\<close>

lemma fresh_forwarded:
  assumes "shows_recent (dedupe_window_seconds cfg) r (l_seen led)"
    and "within_capacity (dedupe_window_seconds cfg) (l_seen (ledger_events cfg sha envs p ip i evs led))"
  shows "l_forwarded (ledger_events cfg sha envs p ip i evs led)
    = l_forwarded led @ map (\<lambda>(j, ev). (envs j, p, ev)) (fresh cfg sha envs p ip i evs r)"
  using assms
proof (induction evs arbitrary: i r led)
  case (Cons ev evs)
  let ?w = "dedupe_window_seconds cfg" and ?k = "signature sha ev (event_body ev) p ip"
  let ?led = "ledger_event cfg sha (envs i) p ip ev led"
  obtain dup r' where d: "is_duplicate ?w ?k (ee_now (envs i)) r = (dup, r')" by force
  have seen: "l_seen ?led = l_seen led @ [(ee_now (envs i), ?k)]" by (simp add: ledger_event_def Let_def)
  have "within_capacity ?w (l_seen ?led)"
    using Cons.prems(2) seen_grows_events within_capacity_prefix by (metis ledger_events.simps(2))
  note exact = is_duplicate_exact [OF Cons.prems(1) this [unfolded seen] d]
  have "shows_recent ?w r' (l_seen ?led)" using exact(2) by (simp add: seen)
  from Cons.IH [OF this, of "Suc i"] show ?case
    using exact(1) Cons.prems(2) by (simp add: fresh_Cons d) (simp add: ledger_event_def Let_def)
qed simp

lemma post_journal:
  assumes "gateway_agrees cfg g led" "l_clock led \<le> po_now po" "gateway_ok cfg g" "fallback_log_dir cfg \<noteq> []" "disk_ok (Post po)"
    and "within_capacity (dedupe_window_seconds cfg) (l_seen (snd (ledger_post cfg sha dump_len po led)))"
    and "post_ingest cfg (po_jwt po) sha dump_len (po_now po) (po_envs po) (po_body po) (po_request po) (po_authz po) g = (a, g')"
  shows "\<exists>lines. file_at (events_path cfg) (g_fallback g') = write_lines cfg lines (file_at (events_path cfg) (g_fallback g))
    \<and> list_all2 (tells_event ft) lines
        (if fallback_active cfg (g_monitor g)
         then drop (length (l_forwarded led)) (l_forwarded (snd (ledger_post cfg sha dump_len po led))) else [])"
proof (cases "fallback_active cfg (g_monitor g)")
  case False
  then show ?thesis
    using post_ingest_no_fallback [OF False, of "po_jwt po" sha dump_len "po_now po" "po_envs po" "po_body po" "po_request po" "po_authz po"] assms(7)
    by (intro exI [of _ "[]"]) simp
next
  case active: True
  let ?p = "principal_from_bearer cfg (po_jwt po) (po_authz po)" and ?ip = "client_ip cfg (po_request po)"
  show ?thesis
  proof (cases "validate_batch cfg dump_len (po_body po)")
    case (Inl e)
    then show ?thesis using assms(7) by (intro exI [of _ "[]"]) (auto simp: post_ingest_def ledger_post_def)
  next
    case (Inr evs)
    have limited: "fst (rate_check cfg (po_now po) (po_request po) g)
        = fst (spec_check RATE_WINDOW_SECONDS (rate_limit_per_min cfg) ?ip (po_now po) (l_requests led))"
      using rl.check_refines [OF _ assms(2), of "g_hits g" "l_requests led" "rate_limit_per_min cfg" ?ip] assms(1)
      by (simp add: gateway_agrees_def same_limits_def)
    show ?thesis
    proof (cases "fst (rate_check cfg (po_now po) (po_request po) g)")
      case True
      then show ?thesis
        using assms(7) limited post_ingest_limited [OF Inr True] Inr
        by (intro exI [of _ "[]"]) (auto simp: ledger_post_def case_prod_beta Let_def)
    next
      case False
      let ?fs = "fresh cfg sha (po_envs po) ?p ?ip 0 evs (g_recent g)"
      define led1 where "led1 = led\<lparr>l_clock := po_now po,
        l_requests := snd (spec_check RATE_WINDOW_SECONDS (rate_limit_per_min cfg) ?ip (po_now po) (l_requests led))\<rparr>"
      have post: "snd (ledger_post cfg sha dump_len po led) = ledger_events cfg sha (po_envs po) ?p ?ip 0 evs led1"
        using False limited Inr by (simp add: ledger_post_def case_prod_beta Let_def led1_def)
      have "shows_recent (dedupe_window_seconds cfg) (g_recent g) (l_seen led1)"
        using assms(1) by (simp add: gateway_agrees_def events_agree_def led1_def)
      from fresh_forwarded [OF this assms(6) [unfolded post]]
      have "drop (length (l_forwarded led)) (l_forwarded (snd (ledger_post cfg sha dump_len po led))) = map (\<lambda>(j, ev). (po_envs po j, ?p, ev)) ?fs"
        by (simp add: post led1_def)
      moreover have "file_at (events_path cfg) (g_fallback g')
          = write_lines cfg (map (\<lambda>(j, ev). event_line ?p (po_envs po j) ev) ?fs) (file_at (events_path cfg) (g_fallback g))"
        using post_ingest_accepted [OF Inr False, where lib = "po_jwt po" and sha = sha and envs = "po_envs po" and authz = "po_authz po"]
          assms(3-5,7) active log_events_file [of cfg "g_fallback g" "po_envs po" ?p ?fs]
        by (auto simp: disk_ok_def gateway_ok_def files_ok_def) (auto simp: after_batch_def Let_def case_prod_beta)
      ultimately show ?thesis
        using active by (intro exI [of _ "map (\<lambda>(j, ev). event_line ?p (po_envs po j) ev) ?fs"])
          (auto simp: list_all2_conv_all_nth event_line_tells split: prod.split)
    qed
  qed
qed

section \<open>A run\<close>

lemma check_trigger_down:
  assumes "gateway_ok cfg g" "wf_dict (stack_targets cfg)"
  shows "fallback_active cfg (g_monitor (monitor_step cfg env g)) \<longleftrightarrow> trigger_down cfg env"
proof -
  have comp: "map_of (components (g_monitor (monitor_step cfg env g))) c =
      (case map_of (stack_targets cfg) c of Some url \<Rightarrow> Some (probe c (get_url env url) (probe_time env c))
       | None \<Rightarrow> map_of (components (g_monitor g)) c)" for c
    using check_once_components [OF assms(2), of env "g_monitor g" "g_fallback g" c] by (simp add: monitor_step_def case_prod_beta)
  have "map_of (components (g_monitor g)) c = None" if "map_of (stack_targets cfg) c = None" for c
    using assms(1) that by (auto simp: gateway_ok_def map_of_eq_None_iff)
  then have "(case map_of (components (g_monitor (monitor_step cfg env g))) c of None \<Rightarrow> False | Some h \<Rightarrow> \<not> healthy h)
      \<longleftrightarrow> check_sees cfg env c = Some False" for c
    by (auto simp: comp probe_def answers_2xx_def check_sees_def split: option.split sum.split)
  then show ?thesis by (simp add: fallback_active_def trigger_seen_down_def list_ex_iff)
qed

lemma run_journal:
  assumes "wf_dict (stack_targets cfg)" "fallback_log_dir cfg \<noteq> []"
    and "service_ok cfg sha dump_len cs led" "gateway_agrees cfg g led" "gateway_ok cfg g" "list_all disk_ok cs"
  shows "\<exists>lines. file_at (events_path cfg) (g_fallback (snd (run_steps (serve_call cfg sha dump_len) cs g)))
      = write_lines cfg lines (file_at (events_path cfg) (g_fallback g))
    \<and> list_all2 (tells_event ft) lines (outage_journal cfg sha dump_len cs led (fallback_active cfg (g_monitor g)))"
  using assms(3-6)
proof (induction cs arbitrary: g led)
  case (Cons c cs)
  let ?g = "snd (serve_call cfg sha dump_len c g)" and ?led = "snd (ledger_call cfg sha dump_len c led)"
  have next_ok: "service_ok cfg sha dump_len cs ?led" "gateway_agrees cfg ?g ?led"
    using service.step_ok [OF Cons.prems(1)] service.step_rel [OF Cons.prems(2,1)] by simp_all
  show ?case
  proof (cases c)
    case (Post po)
    obtain a g' where post: "post_ingest cfg (po_jwt po) sha dump_len (po_now po) (po_envs po) (po_body po) (po_request po) (po_authz po) g = (a, g')" by force
    have few: "within_capacity (dedupe_window_seconds cfg) (l_seen (snd (ledger_post cfg sha dump_len po led)))"
      using Cons.prems(1) seen_grows_run [of cfg sha dump_len cs ?led] within_capacity_prefix by (auto simp: service_ok_def Post)
    have now: "l_clock led \<le> po_now po" using Cons.prems(1) by (simp add: service_ok_def Post clocks_ok_Cons)
    have step: "gateway_ok cfg g'" "g_monitor g' = g_monitor g" 
      using post_ingest_ok [OF Cons.prems(3)] post_ingest_monitor post by (metis snd_conv)+
    have disk: "disk_ok (Post po)" "list_all disk_ok cs" using Cons.prems(4) by (simp_all add: Post)
    obtain lines where "file_at (events_path cfg) (g_fallback g') = write_lines cfg lines (file_at (events_path cfg) (g_fallback g))"
      "list_all2 (tells_event ft) lines (if fallback_active cfg (g_monitor g)
         then drop (length (l_forwarded led)) (l_forwarded (snd (ledger_post cfg sha dump_len po led))) else [])"
      using post_journal [OF Cons.prems(2) now Cons.prems(3) assms(2) disk(1) few post] by blast
    moreover obtain more where "file_at (events_path cfg) (g_fallback (snd (run_steps (serve_call cfg sha dump_len) cs g')))
        = write_lines cfg more (file_at (events_path cfg) (g_fallback g'))"
      "list_all2 (tells_event ft) more
         (outage_journal cfg sha dump_len cs (snd (ledger_post cfg sha dump_len po led)) (fallback_active cfg (g_monitor g)))"
      using Cons.IH [of "snd (ledger_post cfg sha dump_len po led)" g'] next_ok step disk(2) by (auto simp: Post post)
    ultimately show ?thesis
      by (intro exI [of _ "lines @ more"]) (simp add: Post post Let_def list_all2_appendI)
  next
    case (Stack_check env)
    show ?thesis
      using Cons.IH [of led "monitor_step cfg env g"] next_ok Cons.prems(3,4) check_trigger_down [OF Cons.prems(3) assms(1), of env]
      by (simp add: Stack_check monitor_step_ok check_keeps_events)
  qed
qed (auto intro: exI [of _ "[]"])

section \<open>Properties\<close>

text \<open>C5: no event accepted during an outage is left unwritten.  Assume the log directory is configured and opens for every
  request, the clock does not go back, no deduplication window holds more than \<open>MAX_TRACKED_KEYS\<close> signatures, and one digest
  and one serialiser serve the run (PyJWT may judge a token differently each time).  Then the concurrent server has appended to
  the events file, through the rotation, the journal of the ideal server: for every event forwarded while the last health
  check had found a trigger component down, in order, one line that reads back as the record of that event with its time, and
  nothing else.  What the file and its backups hold are the newest of these lines, and all of them when rotation is off: older
  ones may have been rotated away.\<close>

theorem outage_journal_kept:
  assumes "turns cfg fw tr v" "routes_literally fw" "list_all (steady sha dump_len) (map snd tr)"
    and "wf_dict (stack_targets cfg)" "fallback_log_dir cfg \<noteq> []" "list_all disk_ok (all_calls cfg fw (map snd tr))"
    and "sorted (t # post_times (all_calls cfg fw (map snd tr)))"
    and "within_capacity (dedupe_window_seconds cfg)
           (l_seen (snd (run_steps (ledger_call cfg sha dump_len) (all_calls cfg fw (map snd tr)) (empty_ledger t))))"
  shows "let f = file_at (events_path cfg) (g_fallback (app_gw (sv_app v)))
    in \<exists>lines. f = write_lines cfg lines empty_file
         \<and> list_all2 (tells_event ft) lines (outage_journal cfg sha dump_len (all_calls cfg fw (map snd tr)) (empty_ledger t) False)
         \<and> suffix (rfile_lines f) lines \<and> (fallback_log_max_bytes cfg \<le> 0 \<longrightarrow> rfile_lines f = lines)"
proof -
  have "app_gw (sv_app v) = snd (run_steps (serve_call cfg sha dump_len) (all_calls cfg fw (map snd tr)) empty_gateway)"
    using turns_linear [OF assms(1)] front_follows_calls [OF assms(2,3), of cfg fresh_app]
    by (simp add: linearised_def fresh_app_def)
  moreover have "service_ok cfg sha dump_len (all_calls cfg fw (map snd tr)) (empty_ledger t)"
    using assms(7,8) by (simp add: service_ok_def clocks_ok_def empty_ledger_def)
  moreover have "\<not> fallback_active cfg (g_monitor empty_gateway)" "file_at (events_path cfg) (g_fallback empty_gateway) = empty_file"
    by (simp_all add: fallback_active_def empty_gateway_def new_monitor_def new_fallback_def file_at_def list_ex_iff)
  ultimately obtain lines where "file_at (events_path cfg) (g_fallback (app_gw (sv_app v))) = write_lines cfg lines empty_file"
      "list_all2 (tells_event ft) lines (outage_journal cfg sha dump_len (all_calls cfg fw (map snd tr)) (empty_ledger t) False)"
    using run_journal [OF assms(4,5) _ empty_agrees gateway_ok_empty assms(6), of sha dump_len t ft] by auto
  then show ?thesis using write_lines_kept [of cfg lines] by (auto simp: Let_def)
qed

text \<open>A check that finds Loki down, then a post.\<close>

definition outage_post :: "effect list" where
  "outage_post = [(None, Probes outage_env), (Some 1, Client example_outside (example_call ''POST'' ''/api/telemetry/v1/ingest''))]"

lemma outage_post_turns: "\<exists>v. turns logged_settings example_framework outage_post v"
proof -
  let ?w = example_outside and ?c = "example_call ''POST'' ''/api/telemetry/v1/ingest''"
  have admitted: "admit logged_settings example_framework ?c = None" by code_simp
  define v1 where "v1 = new_server\<lparr>sv_app := (sv_app new_server)\<lparr>app_gw := monitor_step logged_settings outage_env (app_gw (sv_app new_server))\<rparr>\<rparr>"
  define v2 where "v2 = v1\<lparr>sv_open := (sv_open v1)(1 \<mapsto> Reading ?w ?c (call_messages ?c) 0 [])\<rparr>"
  have "turns logged_settings example_framework ([] @ [(None, Probes outage_env)]) v1"
    unfolding v1_def by (rule turns.turn [OF turns.start turn.probes])
  then have "turns logged_settings example_framework ([] @ [(None, Probes outage_env)]) v2"
    unfolding v2_def by (rule turns_silent [OF _ turn.connect [OF _ admitted]]) (simp add: v1_def new_server_def)
  moreover obtain rep label s where r: "route_call logged_settings example_framework ?w ?c [] (sv_app v2) = (rep, label, s)"
    by (rule prod_cases3)
  have "sv_open v2 1 = Some (Reading ?w ?c [] 0 [])" by (simp add: v2_def example_call_def)
  note turn.handle [OF this r]
  ultimately show ?thesis unfolding outage_post_def using turns.turn by fastforce
qed

lemma outage_post_calls: "all_calls logged_settings example_framework (map snd outage_post) = [Stack_check outage_env, boom_post 0]"
  by (simp add: outage_post_def calls_of_def arrival_def preflight_def middleware_stack_def logged_settings_def
      default_settings_def example_call_def example_framework_def body_size_limit_def boom_reader_def boom_post_def
      example_outside_def empty_request_def quiet_env_def)

lemma outage_post_journal:
  "outage_journal logged_settings (\<lambda>s. s) (\<lambda>ev. 40) [Stack_check outage_env, boom_post 0] (empty_ledger 0) False
     = [(quiet_env, ANONYMOUS, plain_event ''boom'')]"
  "map fst (l_seen (snd (run_steps (ledger_call logged_settings (\<lambda>s. s) (\<lambda>ev. 40)) [Stack_check outage_env, boom_post 0]
     (empty_ledger 0)))) = [0]"
  by code_simp+

theorem outage_journal_kept_witness:
  "\<exists>v line. turns logged_settings example_framework outage_post v
     \<and> rfile_lines (file_at (events_path logged_settings) (g_fallback (app_gw (sv_app v)))) = [line]
     \<and> tells_event id line (quiet_env, ANONYMOUS, plain_event ''boom'')"
proof -
  obtain v where v: "turns logged_settings example_framework outage_post v" using outage_post_turns by blast
  let ?seen = "l_seen (snd (run_steps (ledger_call logged_settings (\<lambda>s. s) (\<lambda>ev. 40)) [Stack_check outage_env, boom_post 0]
     (empty_ledger 0)))"
  have "length ?seen = 1" using arg_cong [OF outage_post_journal(2), of length] by simp
  then have "within_capacity (dedupe_window_seconds logged_settings) ?seen"
    by (intro within_capacity_small) (simp_all only: outage_post_journal(2), simp_all add: MAX_TRACKED_KEYS_def)
  moreover have "routes_literally example_framework" by (simp add: routes_literally_def example_framework_def)
  moreover have "list_all (steady (\<lambda>s. s) (\<lambda>ev. 40)) (map snd outage_post)"
    by (simp add: outage_post_def steady_def example_outside_def)
  moreover have "wf_dict (stack_targets logged_settings)" "fallback_log_dir logged_settings \<noteq> []"
    by (simp_all add: logged_settings_def default_settings_def wf_dict_def)
  moreover have "list_all disk_ok [Stack_check outage_env, boom_post 0]" by (simp add: disk_ok_def boom_post_def quiet_env_def)
  moreover have "sorted (0 # post_times [Stack_check outage_env, boom_post 0])" by (simp add: post_times_def boom_post_def)
  ultimately obtain lines where "file_at (events_path logged_settings) (g_fallback (app_gw (sv_app v))) = write_lines logged_settings lines empty_file"
      "list_all2 (tells_event id) lines [(quiet_env, ANONYMOUS, plain_event ''boom'')]"
    using outage_journal_kept [OF v, of "\<lambda>s. s" "\<lambda>ev. 40" 0 id, unfolded Let_def] outage_post_journal(1)
    unfolding outage_post_calls by auto
  then show ?thesis using v by (intro exI [of _ v]) (auto simp: list_all2_Cons2 one_line_file Let_def)
qed

end
