(* ===== verification/GwClock.thy ===== *)
theory GwClock
  imports PyText
begin

text \<open>
  The clock texts of the local logs (\<open>_now\<close> of \<open>obs_gateway/stack.py\<close>): \<open>datetime.now(UTC)\<close> as Python's
  \<open>datetime\<close> computes its fields from the day number, and \<open>isoformat(timespec="milliseconds")\<close>.  The clock itself is
  the argument \<open>us\<close>, the microseconds since 1970 began.
\<close>

section \<open>The calendar\<close>

definition is_leap :: "int \<Rightarrow> bool" where
  "is_leap y = (y mod 4 = 0 \<and> (y mod 100 \<noteq> 0 \<or> y mod 400 = 0))"

definition days_before_year :: "int \<Rightarrow> int" where
  "days_before_year y = (y - 1) * 365 + (y - 1) div 4 - (y - 1) div 100 + (y - 1) div 400"

definition DAYS_BEFORE_MONTH :: "int list" where
  "DAYS_BEFORE_MONTH = [0, 0, 31, 59, 90, 120, 151, 181, 212, 243, 273, 304, 334]"

definition DAYS_IN_MONTH :: "int list" where
  "DAYS_IN_MONTH = [0, 31, 28, 31, 30, 31, 30, 31, 31, 30, 31, 30, 31]"

definition days_before_month :: "bool \<Rightarrow> int \<Rightarrow> int" where
  "days_before_month leap m = DAYS_BEFORE_MONTH ! nat m + (if m > 2 \<and> leap then 1 else 0)"

definition days_in_month :: "bool \<Rightarrow> int \<Rightarrow> int" where
  "days_in_month leap m = DAYS_IN_MONTH ! nat m + (if m = 2 \<and> leap then 1 else 0)"

definition ymd2ord :: "int \<Rightarrow> int \<Rightarrow> int \<Rightarrow> int" where
  "ymd2ord y m d = days_before_year y + days_before_month (is_leap y) m + d"

text \<open>The month and day of a day of the year, counted from zero: the estimate may be one month too late.\<close>

definition month_day :: "bool \<Rightarrow> int \<Rightarrow> int \<times> int" where
  "month_day leap n =
     (let month = (n + 50) div 32;
          preceding = days_before_month leap month
      in if preceding > n
         then let month' = month - 1 in (month', n - (preceding - days_in_month leap month') + 1)
         else (month, n - preceding + 1))"

definition ord2ymd :: "int \<Rightarrow> int \<times> int \<times> int" where
  "ord2ymd ordinal =
     (let n = ordinal - 1;
          n400 = n div 146097; n = n mod 146097;
          n100 = n div 36524; n = n mod 36524;
          n4 = n div 1461; n = n mod 1461;
          n1 = n div 365; n = n mod 365;
          year = n400 * 400 + 1 + n100 * 100 + n4 * 4 + n1
      in if n1 = 4 \<or> n100 = 4 then (year - 1, 12, 31)
         else let leapyear = (n1 = 3 \<and> (n4 \<noteq> 24 \<or> n100 = 3)) in (year, month_day leapyear n))"

section \<open>The text of an instant\<close>

record datetime =
  dt_year :: int
  dt_month :: int
  dt_day :: int
  dt_hour :: int
  dt_minute :: int
  dt_second :: int
  dt_microsecond :: int

definition EPOCH_ORDINAL :: int where
  "EPOCH_ORDINAL = 719163"

definition utc_now :: "int \<Rightarrow> datetime" where
  "utc_now us =
     (let seconds = us div 1000000;
          (y, m, d) = ord2ymd (seconds div 86400 + EPOCH_ORDINAL);
          s = seconds mod 86400
      in \<lparr>dt_year = y, dt_month = m, dt_day = d, dt_hour = s div 3600, dt_minute = s div 60 mod 60,
          dt_second = s mod 60, dt_microsecond = us mod 1000000\<rparr>)"

definition pad :: "nat \<Rightarrow> int \<Rightarrow> string" where
  "pad w n = replicate (w - length (dec_digits (nat n))) CHR ''0'' @ dec_digits (nat n)"

definition iso_millis :: "datetime \<Rightarrow> string" where
  "iso_millis t =
     pad 4 (dt_year t) @ ''-'' @ pad 2 (dt_month t) @ ''-'' @ pad 2 (dt_day t) @ ''T''
     @ pad 2 (dt_hour t) @ '':'' @ pad 2 (dt_minute t) @ '':'' @ pad 2 (dt_second t)
     @ ''.'' @ pad 3 (dt_microsecond t div 1000) @ ''+00:00''"

definition now_text :: "int \<Rightarrow> string" where
  "now_text us = iso_millis (utc_now us)"

text \<open>What \<open>datetime\<close> can hold: the years 1 to 9999.\<close>

definition clock_ok :: "int \<Rightarrow> bool" where
  "clock_ok us \<longleftrightarrow> - 62135596800000000 \<le> us \<and> us < 253402300800000000"

section \<open>Numerals of fixed width\<close>

lemma dec_value_Cons: "dec_value (c # s) = (code c - 48) * 10 ^ length s + dec_value s"
proof (induction s rule: rev_induct)
  case (snoc x s)
  have "dec_value (c # s @ [x]) = 10 * dec_value (c # s) + (code x - 48)"
    using dec_value_snoc [of "c # s" x] by simp
  then show ?case using snoc by (simp add: dec_value_snoc algebra_simps)
qed (simp add: dec_value_def)

lemma dec_value_zeros [simp]: "dec_value (replicate k CHR ''0'' @ s) = dec_value s"
  by (induction k) (simp_all add: dec_value_Cons)

lemma digit_value: "is_digit c \<Longrightarrow> code c - 48 < 10"
  by (auto simp: is_digit_def)

lemma dec_value_bound: "list_all is_digit s \<Longrightarrow> dec_value s < 10 ^ length s"
proof (induction s)
  case (Cons c s)
  have "(code c - 48) * 10 ^ length s \<le> 9 * 10 ^ length s"
    using digit_value [of c] Cons.prems by (intro mult_right_mono) auto
  moreover have "dec_value s < 10 ^ length s" using Cons by simp
  moreover have "10 ^ length (c # s) = 9 * 10 ^ length s + (10 :: nat) ^ length s" by simp
  ultimately show ?case unfolding dec_value_Cons by linarith
qed (simp add: dec_value_def)

text \<open>Digit strings of one length compare like the numbers they denote.\<close>

lemma place_less:
  fixes a b u v n :: nat
  assumes "u < n" "v < n"
  shows "a * n + u < b * n + v \<longleftrightarrow> a < b \<or> (a = b \<and> u < v)"
proof -
  have lt: "x * n + w < y * n + w'" if "x < y" "w < n" for x y w w' :: nat
  proof -
    have "Suc x * n \<le> y * n" using that(1) by (intro mult_right_mono) auto
    then show ?thesis using that(2) by simp
  qed
  show ?thesis
    using lt [of a b u v] lt [of b a v u] assms by (cases a b rule: linorder_cases) auto
qed

lemma digits_less:
  "list_all is_digit s \<Longrightarrow> list_all is_digit t \<Longrightarrow> length s = length t \<Longrightarrow> s < t \<longleftrightarrow> dec_value s < dec_value t"
proof (induction s arbitrary: t)
  case (Cons c s)
  then obtain e t' where t: "t = e # t'" by (cases t) auto
  have "dec_value s < 10 ^ length s" "dec_value t' < 10 ^ length s"
    using Cons.prems dec_value_bound [of s] dec_value_bound [of t'] by (simp_all add: t)
  then have v: "dec_value (c # s) < dec_value t \<longleftrightarrow>
      code c - 48 < code e - 48 \<or> (code c - 48 = code e - 48 \<and> dec_value s < dec_value t')"
    using Cons.prems(3) by (simp add: t dec_value_Cons place_less)
  have d: "48 \<le> code c" "48 \<le> code e" using Cons.prems by (auto simp: t is_digit_def)
  have "code c - 48 < code e - 48 \<longleftrightarrow> c < e" using d by (auto simp: less_char_def)
  moreover have "code c - 48 = code e - 48 \<longleftrightarrow> c = e"
    using d by (metis eq_diff_iff of_char_eq_iff)
  moreover have "s < t' \<longleftrightarrow> dec_value s < dec_value t'" using Cons by (simp add: t)
  ultimately show ?case unfolding v by (simp add: t)
qed simp

lemma length_dec_digits: "n < 10 ^ k \<Longrightarrow> 0 < k \<Longrightarrow> length (dec_digits n) \<le> k"
proof (induction n arbitrary: k rule: dec_digits.induct)
  case (1 n)
  show ?case
  proof (cases "n < 10")
    case False
    obtain j where k: "k = Suc j" using 1 by (cases k) auto
    have "n div 10 < 10 ^ j" using 1 by (simp add: k less_mult_imp_div_less mult.commute)
    moreover have "0 < j" using False 1(2) by (cases j) (auto simp: k)
    ultimately show ?thesis using 1(1) [OF False, of j] False by (subst dec_digits.simps) (simp add: k)
  qed (use 1 in \<open>subst dec_digits.simps, simp\<close>)
qed

lemma pad_digits: "list_all is_digit (pad w n)"
  using is_digit_dec_digits [of "nat n"] by (auto simp: pad_def list_all_iff is_digit_def)

lemma pad_value [simp]: "dec_value (pad w n) = nat n"
  by (simp add: pad_def)

lemma length_pad: "0 < w \<Longrightarrow> n < 10 ^ w \<Longrightarrow> length (pad w n) = w"
proof -
  assume "0 < w" "n < 10 ^ w"
  moreover from this have "nat n < 10 ^ w" by (simp add: nat_less_iff)
  ultimately show ?thesis using length_dec_digits [of "nat n" w] by (simp add: pad_def)
qed

lemma append_less:
  "length s = length t \<Longrightarrow> s @ u < t @ v \<longleftrightarrow> s < t \<or> (s = t \<and> u < v)" for s t u v :: string
  by (induction s t rule: list_induct2) auto

lemma pad_less:
  assumes "0 < w" "0 \<le> a" "a < 10 ^ w" "0 \<le> b" "b < 10 ^ w"
  shows "pad w a @ u < pad w b @ v \<longleftrightarrow> a < b \<or> (a = b \<and> u < v)"
proof -
  have len: "length (pad w a) = length (pad w b)" using assms length_pad by simp
  have "pad w a = pad w b \<longleftrightarrow> a = b"
    using assms pad_value by (metis nat_eq_iff2 nat_0_le)
  moreover have "pad w a < pad w b \<longleftrightarrow> a < b"
    using digits_less [OF pad_digits pad_digits len] assms by auto
  ultimately show ?thesis using append_less [OF len, of u v] by simp
qed

lemma dec_digits_eval:
  "n < 10 \<Longrightarrow> dec_digits n = [char_of (48 + n)]"
  "10 \<le> n \<Longrightarrow> dec_digits n = dec_digits (n div 10) @ [char_of (48 + n mod 10)]"
  by (subst dec_digits.simps, simp)+

lemma now_text_examples:
  "now_text 951782399999999 = ''2000-02-28T23:59:59.999+00:00''" "now_text 951782400123456 = ''2000-02-29T00:00:00.123+00:00''"
proof -
  have "utc_now 951782399999999 = \<lparr>dt_year = 2000, dt_month = 2, dt_day = 28, dt_hour = 23, dt_minute = 59, dt_second = 59, dt_microsecond = 999999\<rparr>"
    by code_simp
  then show "now_text 951782399999999 = ''2000-02-28T23:59:59.999+00:00''"
    by (simp add: now_text_def iso_millis_def pad_def dec_digits_eval char_eval)
  have "utc_now 951782400123456 = \<lparr>dt_year = 2000, dt_month = 2, dt_day = 29, dt_hour = 0, dt_minute = 0, dt_second = 0, dt_microsecond = 123456\<rparr>"
    by code_simp
  then show "now_text 951782400123456 = ''2000-02-29T00:00:00.123+00:00''"
    by (simp add: now_text_def iso_millis_def pad_def dec_digits_eval char_eval)
qed

section \<open>The calendar is read back\<close>

lemma month_day_table:
  "list_all (\<lambda>n. let (m, d) = month_day leap n in 1 \<le> m \<and> m \<le> 12 \<and> 1 \<le> d \<and> d \<le> days_in_month leap m
      \<and> days_before_month leap m + d = n + 1) [0..364]"
  by (cases leap; simp only:; code_simp)

lemma month_day_ok:
  assumes "0 \<le> n" "n < 365" "month_day leap n = (m, d)"
  shows "1 \<le> m" "m \<le> 12" "1 \<le> d" "d \<le> days_in_month leap m" "days_before_month leap m + d = n + 1"
proof -
  have "n \<in> set [0..364]" using assms by simp
  then have "let (m, d) = month_day leap n in 1 \<le> m \<and> m \<le> 12 \<and> 1 \<le> d \<and> d \<le> days_in_month leap m
      \<and> days_before_month leap m + d = n + 1"
    using month_day_table [of leap] unfolding list_all_iff by blast
  then show "1 \<le> m" "m \<le> 12" "1 \<le> d" "d \<le> days_in_month leap m" "days_before_month leap m + d = n + 1"
    using assms(3) by simp_all
qed

lemma months_follow:
  "list_all (\<lambda>m. list_all (\<lambda>m'. m < m' \<longrightarrow> days_before_month leap m + days_in_month leap m \<le> days_before_month leap m') [1..12]) [1..12]"
  by (cases leap; simp only:; code_simp)

lemma months_nonneg: "list_all (\<lambda>m. 0 \<le> days_before_month leap m) [1..12]"
  by (cases leap; simp only:; code_simp)

lemma year_days: "days_before_month leap 12 + days_in_month leap 12 = (if leap then 366 else 365)"
  by (cases leap; simp only:; code_simp)


text \<open>A year as its place in the cycles of 400, 100 and 4 years.\<close>

lemma cycle_div:
  fixes a b c e :: int
  assumes "0 \<le> b" "b \<le> 3" "0 \<le> c" "c \<le> 24" "0 \<le> e" "e \<le> 3"
  shows "(400 * a + 100 * b + 4 * c + e) div 4 = 100 * a + 25 * b + c"
    "(400 * a + 100 * b + 4 * c + e) div 100 = 4 * a + b" "(400 * a + 100 * b + 4 * c + e) div 400 = a"
  by (rule int_div_pos_eq [of _ _ _ e] int_div_pos_eq [of _ _ _ "4 * c + e"] int_div_pos_eq [of _ _ _ "100 * b + 4 * c + e"];
      use assms in simp)+

lemma days_before_cycle:
  assumes "0 \<le> b" "b \<le> 3" "0 \<le> c" "c \<le> 24" "0 \<le> e" "e \<le> 3"
  shows "days_before_year (400 * a + 100 * b + 4 * c + e + 1) = 146097 * a + 36524 * b + 1461 * c + 365 * e"
  using cycle_div [OF assms, of a] by (simp add: days_before_year_def)

lemma leap_cycle:
  assumes "0 \<le> b" "b \<le> 3" "0 \<le> c" "c \<le> 24" "0 \<le> e" "e \<le> 3"
  shows "is_leap (400 * a + 100 * b + 4 * c + e + 1) \<longleftrightarrow> e = 3 \<and> (c \<noteq> 24 \<or> b = 3)"
proof -
  let ?y = "400 * a + 100 * b + 4 * c + e + 1"
  have split: "?y mod k = (r + 1) mod k" if "400 * a + 100 * b + 4 * c + e = k * q + r" for k q r
    using that mod_mult_self2 [of "r + 1" k q] by (simp add: algebra_simps)
  have 4: "?y mod 4 = (e + 1) mod 4" by (rule split [of _ "100 * a + 25 * b + c"]) simp
  have 100: "?y mod 100 = (4 * c + e + 1) mod 100" by (rule split [of _ "4 * a + b"]) simp
  have 400: "?y mod 400 = (100 * b + 4 * c + e + 1) mod 400" by (rule split [of _ a]) simp
  have top: "x mod k = 0 \<longleftrightarrow> x = k" if "0 < x" "x \<le> k" for x k :: int
    using that by (cases "x = k") auto
  have "?y mod 4 = 0 \<longleftrightarrow> e = 3" unfolding 4 by (subst top) (use assms in presburger)+
  moreover have "?y mod 100 = 0 \<longleftrightarrow> c = 24 \<and> e = 3" unfolding 100 by (subst top) (use assms in presburger)+
  moreover have "?y mod 400 = 0 \<longleftrightarrow> b = 3 \<and> c = 24 \<and> e = 3" unfolding 400 by (subst top) (use assms in presburger)+
  ultimately show ?thesis unfolding is_leap_def by auto
qed

definition date_ok :: "int \<times> int \<times> int \<Rightarrow> bool" where
  "date_ok = (\<lambda>(y, m, d). 1 \<le> m \<and> m \<le> 12 \<and> 1 \<le> d \<and> d \<le> days_in_month (is_leap y) m)"

lemma last_day: "date_ok (y, 12, 31)" "ymd2ord y 12 31 = days_before_year y + (if is_leap y then 366 else 365)"
  by (simp_all add: date_ok_def ymd2ord_def days_before_month_def days_in_month_def DAYS_BEFORE_MONTH_def DAYS_IN_MONTH_def)

lemma ord2ymd_ok: "date_ok (ord2ymd n) \<and> (case ord2ymd n of (y, m, d) \<Rightarrow> ymd2ord y m d = n)"
proof -
  define n0 where "n0 = n - 1"
  define a where "a = n0 div 146097"
  define r1 where "r1 = n0 mod 146097"
  define b where "b = r1 div 36524"
  define r2 where "r2 = r1 mod 36524"
  define c where "c = r2 div 1461"
  define r3 where "r3 = r2 mod 1461"
  define e where "e = r3 div 365"
  define r4 where "r4 = r3 mod 365"
  note defs = n0_def a_def r1_def b_def r2_def c_def r3_def e_def r4_def
  have n: "n = 146097 * a + 36524 * b + 1461 * c + 365 * e + r4 + 1"
    unfolding defs by (simp add: algebra_simps)
  have r: "0 \<le> r1" "r1 < 146097" "0 \<le> r2" "r2 < 36524" "0 \<le> r3" "r3 < 1461" "0 \<le> r4" "r4 < 365"
    unfolding defs by simp_all
  have eqs: "r1 = 36524 * b + r2" "r2 = 1461 * c + r3" "r3 = 365 * e + r4"
    unfolding b_def r2_def c_def r3_def e_def r4_def by simp_all
  have bnd: "0 \<le> b" "b \<le> 4" "0 \<le> c" "c \<le> 24" "0 \<le> e" "e \<le> 4" using r eqs by linarith+
  have o: "ord2ymd n = (if e = 4 \<or> b = 4 then (a * 400 + b * 100 + c * 4 + e, 12, 31)
      else (a * 400 + 1 + b * 100 + c * 4 + e, month_day (e = 3 \<and> (c \<noteq> 24 \<or> b = 3)) r4))"
    unfolding ord2ymd_def Let_def defs by simp
  consider (century) "b = 4" | (olympiad) "b \<noteq> 4" "e = 4" | (year) "b \<noteq> 4" "e \<noteq> 4" by blast
  then show ?thesis
  proof cases
    case century
    then have z: "c = 0" "e = 0" "r4 = 0" using r eqs bnd by linarith+
    have y: "a * 400 + b * 100 + c * 4 + e = 400 * a + 100 * 3 + 4 * 24 + 3 + 1" using century z by simp
    show ?thesis
      using days_before_cycle [of 3 24 3 a] leap_cycle [of 3 24 3 a] century z
      unfolding o y by (simp add: last_day n)
  next
    case olympiad
    then have z: "c \<noteq> 24" "r4 = 0" using r eqs bnd by linarith+
    have y: "a * 400 + b * 100 + c * 4 + e = 400 * a + 100 * b + 4 * c + 3 + 1" using olympiad by simp
    show ?thesis
      using days_before_cycle [of b c 3 a] leap_cycle [of b c 3 a] olympiad z bnd
      unfolding o y by (simp add: last_day n)
  next
    case year
    let ?y = "400 * a + 100 * b + 4 * c + e + 1"
    have be: "0 \<le> b" "b \<le> 3" "0 \<le> c" "c \<le> 24" "0 \<le> e" "e \<le> 3" using bnd year by linarith+
    obtain m d where md: "month_day (is_leap ?y) r4 = (m, d)" by force
    have "ord2ymd n = (?y, m, d)"
      using year md unfolding o leap_cycle [OF be] by (simp add: algebra_simps)
    moreover note month_day_ok [OF r(7,8) md]
    ultimately show ?thesis
      using days_before_cycle [OF be, of a] by (simp add: date_ok_def ymd2ord_def n)
  qed
qed


text \<open>Later dates have larger day numbers.\<close>

lemma leap_count:
  "(p400 \<Longrightarrow> p100) \<Longrightarrow> (p100 \<Longrightarrow> p4) \<Longrightarrow>
     (if p4 then 1 else 0) - (if p100 then 1 else 0) + (if p400 then 1 else 0) = (if p4 \<and> (\<not> p100 \<or> p400) then 1 else 0 :: int)"
  by auto

lemma year_sum:
  fixes y4 z4 i4 y100 z100 i100 y400 z400 i400 L X Y R y :: int
  shows "y4 = z4 + i4 \<Longrightarrow> y100 = z100 + i100 \<Longrightarrow> y400 = z400 + i400 \<Longrightarrow> i4 - i100 + i400 = L
    \<Longrightarrow> X = y * 365 + y4 - y100 + y400 \<Longrightarrow> Y = y * 365 - 365 + z4 - z100 + z400 \<Longrightarrow> R = 365 + L \<Longrightarrow> X = Y + R"
  by simp

lemma days_before_next: "days_before_year (y + 1) = days_before_year y + (if is_leap y then 366 else 365)"
proof -
  have d: "z div k = (z - 1) div k + (if z mod k = 0 then 1 else 0)" if "0 < k" for z k :: int
  proof (cases "z mod k = 0")
    case True
    then have "z - 1 = k * (z div k - 1) + (k - 1)" using div_mult_mod_eq [of z k] by (simp add: algebra_simps)
    from int_div_pos_eq [OF this] that True show ?thesis by simp
  next
    case False
    then have "0 < z mod k" using that by (simp add: order_less_le)
    moreover have "z - 1 = k * (z div k) + (z mod k - 1)" by simp
    ultimately have "(z - 1) div k = z div k"
      using int_div_pos_eq [of "z - 1" k "z div k" "z mod k - 1"] that pos_mod_bound [OF that, of z] by linarith
    then show ?thesis using False by simp
  qed
  let ?one = "\<lambda>k. if y mod k = 0 then 1 else 0 :: int"
  have "y mod 100 = 0 \<Longrightarrow> y mod 4 = 0" "y mod 400 = 0 \<Longrightarrow> y mod 100 = 0"
    using dvd_trans [of 4 100 y] dvd_trans [of 100 400 y] by (simp_all flip: dvd_eq_mod_eq_0)
  then have l: "?one 4 - ?one 100 + ?one 400 = (if is_leap y then 1 else 0)"
    unfolding is_leap_def by (intro leap_count)
  have x: "days_before_year (y + 1) = y * 365 + y div 4 - y div 100 + y div 400" by (simp add: days_before_year_def)
  have y: "days_before_year y = y * 365 - 365 + (y - 1) div 4 - (y - 1) div 100 + (y - 1) div 400"
    by (simp add: days_before_year_def)
  have r: "(if is_leap y then 366 else 365) = 365 + (if is_leap y then 1 else 0 :: int)" by simp
  show ?thesis by (rule year_sum [OF d d d l x y r]) simp_all
qed

lemma days_before_year_mono: "y \<le> y' \<Longrightarrow> days_before_year y \<le> days_before_year y'"
proof (induction y' rule: int_ge_induct)
  case (step i)
  then show ?case using days_before_next [of i] by auto
qed simp

lemma ymd2ord_range:
  assumes "date_ok (y, m, d)"
  shows "days_before_year y < ymd2ord y m d \<and> ymd2ord y m d \<le> days_before_year (y + 1)"
proof -
  have m: "m \<in> set [1..12]" using assms by (simp add: date_ok_def)
  have "0 \<le> days_before_month (is_leap y) m"
    using m months_nonneg [of "is_leap y"] unfolding list_all_iff by blast
  moreover have "m < 12 \<Longrightarrow> days_before_month (is_leap y) m + days_in_month (is_leap y) m \<le> days_before_month (is_leap y) 12"
    using months_follow [of "is_leap y"] m unfolding list_all_iff by auto
  moreover have "0 \<le> days_in_month (is_leap y) 12" by (simp add: days_in_month_def DAYS_IN_MONTH_def)
  ultimately show ?thesis
    using assms year_days [of "is_leap y"] by (cases "m = 12") (auto simp: date_ok_def ymd2ord_def days_before_next)
qed

lemma ymd2ord_less:
  assumes "date_ok (y, m, d)" "date_ok (y', m', d')" "y < y' \<or> (y = y' \<and> (m < m' \<or> (m = m' \<and> d < d')))"
  shows "ymd2ord y m d < ymd2ord y' m' d'"
proof -
  have "ymd2ord y m d < ymd2ord y' m' d'" if "y < y'"
    using ymd2ord_range [OF assms(1)] ymd2ord_range [OF assms(2)] days_before_year_mono [of "y + 1" y'] that by linarith
  moreover have "ymd2ord y m d < ymd2ord y' m' d'" if "y = y'" "m < m'"
  proof -
    have "days_before_month (is_leap y) m + days_in_month (is_leap y) m \<le> days_before_month (is_leap y) m'"
      using months_follow [of "is_leap y"] that assms(1,2) unfolding list_all_iff date_ok_def by auto
    then show ?thesis using that assms(1,2) by (simp add: ymd2ord_def date_ok_def)
  qed
  ultimately show ?thesis using assms(3) by (auto simp: ymd2ord_def)
qed

lemma year_range:
  assumes "date_ok (y, m, d)" "1 \<le> ymd2ord y m d" "ymd2ord y m d \<le> 3652059"
  shows "1 \<le> y \<and> y \<le> 9999"
proof -
  have "y < 1 \<Longrightarrow> ymd2ord y m d \<le> 0"
    using ymd2ord_range [OF assms(1)] days_before_year_mono [of "y + 1" 1] by (simp add: days_before_year_def)
  moreover have "9999 < y \<Longrightarrow> 3652059 < ymd2ord y m d"
    using ymd2ord_range [OF assms(1)] days_before_year_mono [of 10000 y] by (simp add: days_before_year_def)
  ultimately show ?thesis using assms(2,3) by linarith
qed


section \<open>Order of the texts\<close>

definition dt_ok :: "datetime \<Rightarrow> bool" where
  "dt_ok t \<longleftrightarrow> date_ok (dt_year t, dt_month t, dt_day t) \<and> 1 \<le> dt_year t \<and> dt_year t \<le> 9999
     \<and> 0 \<le> dt_hour t \<and> dt_hour t < 24 \<and> 0 \<le> dt_minute t \<and> dt_minute t < 60
     \<and> 0 \<le> dt_second t \<and> dt_second t < 60 \<and> 0 \<le> dt_microsecond t \<and> dt_microsecond t < 1000000"

text \<open>The milliseconds of an instant.\<close>

definition dt_millis :: "datetime \<Rightarrow> int" where
  "dt_millis t = (((ymd2ord (dt_year t) (dt_month t) (dt_day t) * 24 + dt_hour t) * 60 + dt_minute t) * 60 + dt_second t) * 1000
     + dt_microsecond t div 1000"

text \<open>The two facts of mixed-radix arithmetic used below.\<close>

lemma radix_sum:
  fixes D h m x s :: int
  shows "(h * 60 + m) * 60 + x = s \<Longrightarrow> ((D * 24 + h) * 60 + m) * 60 + x = D * 86400 + s"
  by simp

lemma millis_sum:
  fixes u q r D E s x :: int
  shows "u = q * 1000 + r \<Longrightarrow> q = D * 86400 + s \<Longrightarrow> x = (D + E) * 86400 + s \<Longrightarrow> x * 1000 + r = u + E * 86400000"
  by simp

lemma radix_less:
  fixes a a' h h' m m' x x' k k' :: int
  assumes "a < a' \<or> (a = a' \<and> (h < h' \<or> (h = h' \<and> (m < m' \<or> (m = m' \<and> (x < x' \<or> (x = x' \<and> k < k')))))))"
    and "0 \<le> h'" "h < 24" "0 \<le> m'" "m < 60" "0 \<le> x'" "x < 60" "0 \<le> k'" "k < 1000"
  shows "(((a * 24 + h) * 60 + m) * 60 + x) * 1000 + k < (((a' * 24 + h') * 60 + m') * 60 + x') * 1000 + k'"
  using assms by (elim disjE conjE) simp_all

lemma days_in_month_le: "1 \<le> m \<Longrightarrow> m \<le> 12 \<Longrightarrow> days_in_month leap m \<le> 31"
proof -
  have "list_all (\<lambda>m. days_in_month leap m \<le> 31) [1..12]" by (cases leap; simp only:; code_simp)
  then show "1 \<le> m \<Longrightarrow> m \<le> 12 \<Longrightarrow> days_in_month leap m \<le> 31" by (simp add: list_all_iff)
qed

lemma dt_ok_fields:
  assumes "dt_ok t"
  shows "1 \<le> dt_month t" "dt_month t \<le> 12" "1 \<le> dt_day t" "dt_day t \<le> 31"
    "0 \<le> dt_microsecond t div 1000" "dt_microsecond t div 1000 < 1000"
proof -
  show "1 \<le> dt_month t" "dt_month t \<le> 12" "1 \<le> dt_day t" using assms by (simp_all add: dt_ok_def date_ok_def)
  then show "dt_day t \<le> 31"
    using assms days_in_month_le [of "dt_month t" "is_leap (dt_year t)"] by (simp add: dt_ok_def date_ok_def)
  show "0 \<le> dt_microsecond t div 1000" "dt_microsecond t div 1000 < 1000" using assms by (auto simp: dt_ok_def)
qed

lemma utc_now_ok:
  assumes "clock_ok us"
  shows "dt_ok (utc_now us) \<and> dt_millis (utc_now us) = us div 1000 + EPOCH_ORDINAL * 86400000"
proof -
  define day where "day = us div 1000000 div 86400"
  define s where "s = us div 1000000 mod 86400"
  obtain y m d where o: "ord2ymd (day + EPOCH_ORDINAL) = (y, m, d)" by (rule prod_cases3)
  have date: "date_ok (y, m, d)" "ymd2ord y m d = day + EPOCH_ORDINAL"
    using ord2ymd_ok [of "day + EPOCH_ORDINAL"] by (simp_all add: o)
  have "us div 86400000000 = day" unfolding day_def by (simp add: zdiv_zmult2_eq [of _ _ 86400, symmetric])
  then have "- 719162 \<le> day" "day \<le> 2932896" using assms unfolding clock_ok_def by linarith+
  then have year: "1 \<le> y \<and> y \<le> 9999" using year_range [OF date(1)] date(2) by (simp add: EPOCH_ORDINAL_def)
  have sec: "0 \<le> s" "s < 86400" unfolding s_def by simp_all
  have t: "utc_now us = \<lparr>dt_year = y, dt_month = m, dt_day = d, dt_hour = s div 3600, dt_minute = s div 60 mod 60,
      dt_second = s mod 60, dt_microsecond = us mod 1000000\<rparr>"
    using o by (simp add: utc_now_def Let_def flip: day_def s_def)
  have hms: "(s div 3600 * 60 + s div 60 mod 60) * 60 + s mod 60 = s"
  proof -
    have "s div 3600 = s div 60 div 60" by (simp add: zdiv_zmult2_eq [of _ _ 60, symmetric])
    then have "s div 3600 * 60 + s div 60 mod 60 = s div 60" by simp
    then show ?thesis by simp
  qed
  have "us div 1000 div 1000 = us div 1000000" by (simp add: zdiv_zmult2_eq [of _ _ 1000, symmetric])
  moreover have "us mod 1000000 div 1000 = us div 1000 mod 1000"
    using zmod_zmult2_eq [of 1000 us 1000] by simp
  ultimately have u: "us div 1000 = us div 1000000 * 1000 + us mod 1000000 div 1000"
    using div_mult_mod_eq [of "us div 1000" 1000] by simp
  have day: "us div 1000000 = day * 86400 + s" unfolding day_def s_def by simp
  have "dt_millis (utc_now us) = us div 1000 + EPOCH_ORDINAL * 86400000"
    unfolding t dt_millis_def datetime.simps date(2) by (rule millis_sum [OF u day radix_sum [OF hms]])
  moreover have "0 \<le> s div 3600 \<and> s div 3600 < 24" using sec by auto
  then have "dt_ok (utc_now us)"
    unfolding t dt_ok_def datetime.simps using date(1) year by (intro conjI) simp_all
  ultimately show ?thesis by blast
qed


lemma text_less:
  assumes "dt_ok t" "dt_ok t'"
  shows "iso_millis t < iso_millis t' \<longleftrightarrow>
    dt_year t < dt_year t' \<or> (dt_year t = dt_year t' \<and> (dt_month t < dt_month t' \<or> (dt_month t = dt_month t'
      \<and> (dt_day t < dt_day t' \<or> (dt_day t = dt_day t' \<and> (dt_hour t < dt_hour t' \<or> (dt_hour t = dt_hour t'
      \<and> (dt_minute t < dt_minute t' \<or> (dt_minute t = dt_minute t' \<and> (dt_second t < dt_second t' \<or> (dt_second t = dt_second t'
      \<and> dt_microsecond t div 1000 < dt_microsecond t' div 1000)))))))))))"
proof -
  note f = dt_ok_fields [OF assms(1)] dt_ok_fields [OF assms(2)]
  have r: "0 \<le> dt_year t" "dt_year t < 10 ^ 4" "0 \<le> dt_year t'" "dt_year t' < 10 ^ 4"
    "0 \<le> dt_month t" "dt_month t < 10\<^sup>2" "0 \<le> dt_month t'" "dt_month t' < 10\<^sup>2"
    "0 \<le> dt_day t" "dt_day t < 10\<^sup>2" "0 \<le> dt_day t'" "dt_day t' < 10\<^sup>2"
    "0 \<le> dt_hour t" "dt_hour t < 10\<^sup>2" "0 \<le> dt_hour t'" "dt_hour t' < 10\<^sup>2"
    "0 \<le> dt_minute t" "dt_minute t < 10\<^sup>2" "0 \<le> dt_minute t'" "dt_minute t' < 10\<^sup>2"
    "0 \<le> dt_second t" "dt_second t < 10\<^sup>2" "0 \<le> dt_second t'" "dt_second t' < 10\<^sup>2"
    "0 \<le> dt_microsecond t div 1000" "dt_microsecond t div 1000 < 10 ^ 3"
    "0 \<le> dt_microsecond t' div 1000" "dt_microsecond t' div 1000 < 10 ^ 3"
    using assms f by (auto simp: dt_ok_def)
  have "(0 :: nat) < 2" "(0 :: nat) < 3" "(0 :: nat) < 4" by simp_all
  note less = pad_less [OF this(3) r(1-4)] pad_less [OF this(1) r(5-8)] pad_less [OF this(1) r(9-12)] pad_less [OF this(1) r(13-16)]
    pad_less [OF this(1) r(17-20)] pad_less [OF this(1) r(21-24)] pad_less [OF this(2) r(25-28)]
  show ?thesis unfolding iso_millis_def less append.simps Cons_less_Cons by simp
qed

lemma text_less_millis:
  assumes "dt_ok t" "dt_ok t'" "iso_millis t < iso_millis t'"
  shows "dt_millis t < dt_millis t'"
proof -
  let ?o = "ymd2ord (dt_year t) (dt_month t) (dt_day t)" and ?o' = "ymd2ord (dt_year t') (dt_month t') (dt_day t')"
  have d: "date_ok (dt_year t, dt_month t, dt_day t)" "date_ok (dt_year t', dt_month t', dt_day t')"
    using assms by (simp_all add: dt_ok_def)
  have "?o < ?o' \<or> (?o = ?o' \<and> (dt_hour t < dt_hour t' \<or> (dt_hour t = dt_hour t' \<and> (dt_minute t < dt_minute t'
      \<or> (dt_minute t = dt_minute t' \<and> (dt_second t < dt_second t' \<or> (dt_second t = dt_second t'
      \<and> dt_microsecond t div 1000 < dt_microsecond t' div 1000)))))))"
    using assms(3) ymd2ord_less [OF d] unfolding text_less [OF assms(1,2)] by auto
  then show ?thesis
    using assms(1,2) dt_ok_fields(5,6) [OF assms(1)] dt_ok_fields(5,6) [OF assms(2)] unfolding dt_millis_def
    by (intro radix_less) (simp_all add: dt_ok_def)
qed

lemma now_text_less:
  assumes "clock_ok a" "clock_ok b"
  shows "now_text a < now_text b \<longleftrightarrow> a div 1000 < b div 1000"
proof -
  note u = utc_now_ok [OF assms(1)] utc_now_ok [OF assms(2)]
  have "now_text x < now_text y \<Longrightarrow> x div 1000 < y div 1000" if "clock_ok x" "clock_ok y" for x y
    using text_less_millis [of "utc_now x" "utc_now y"] utc_now_ok [OF that(1)] utc_now_ok [OF that(2)]
    by (simp add: now_text_def)
  moreover have "x div 1000 = y div 1000" if "clock_ok x" "clock_ok y" "now_text x = now_text y" for x y
  proof -
    have "\<not> iso_millis (utc_now x) < iso_millis (utc_now y)" "\<not> iso_millis (utc_now y) < iso_millis (utc_now x)"
      using that(3) by (simp_all add: now_text_def)
    then have "dt_millis (utc_now x) = dt_millis (utc_now y)"
      using utc_now_ok [OF that(1)] utc_now_ok [OF that(2)] by (auto simp: text_less dt_millis_def)
    then show ?thesis using utc_now_ok [OF that(1)] utc_now_ok [OF that(2)] by simp
  qed
  ultimately show ?thesis using assms by (metis linorder_neqE not_less_iff_gr_or_eq)
qed


lemma length_now_text:
  assumes "clock_ok us"
  shows "length (now_text us) = 29"
proof -
  let ?t = "utc_now us"
  have ok: "dt_ok ?t" using utc_now_ok [OF assms] by blast
  have "length (pad 2 (dt_month ?t)) = 2" "length (pad 2 (dt_day ?t)) = 2" "length (pad 3 (dt_microsecond ?t div 1000)) = 3"
    using dt_ok_fields [OF ok] by (simp_all add: length_pad)
  moreover have "length (pad 4 (dt_year ?t)) = 4" "length (pad 2 (dt_hour ?t)) = 2" "length (pad 2 (dt_minute ?t)) = 2"
    "length (pad 2 (dt_second ?t)) = 2"
    using ok by (simp_all add: dt_ok_def length_pad)
  ultimately show ?thesis by (simp add: now_text_def iso_millis_def)
qed

lemma now_text_mono:
  assumes "clock_ok a" "clock_ok b" "a \<le> b"
  shows "now_text a \<le> now_text b"
  using now_text_less [OF assms(2,1)] zdiv_mono1 [OF assms(3), of 1000] by (simp add: not_less [symmetric])

section \<open>Properties\<close>

text \<open>C34: the clock texts of the logs sort like the instants they name.  For any two clock readings in the years
  1 to 9999 the texts have 29 characters, compare as strings exactly as the readings compare in milliseconds,
  and are equal exactly when the milliseconds are: month lengths, leap years and centuries included, no two
  instants are confused or put in the wrong order.\<close>

theorem log_times_ordered:
  assumes "clock_ok a" "clock_ok b"
  shows "length (now_text a) = 29 \<and> (now_text a < now_text b \<longleftrightarrow> a div 1000 < b div 1000)
    \<and> (now_text a = now_text b \<longleftrightarrow> a div 1000 = b div 1000)"
proof -
  have "now_text a = now_text b \<longleftrightarrow> \<not> now_text a < now_text b \<and> \<not> now_text b < now_text a" by auto
  then show ?thesis
    using length_now_text [OF assms(1)] now_text_less [OF assms] now_text_less [OF assms(2,1)] by auto
qed

theorem log_times_ordered_witness:
  "now_text 951782399999999 = ''2000-02-28T23:59:59.999+00:00'' \<and> now_text 951782399999999 < now_text 951782400123456"
  using log_times_ordered [of 951782399999999 951782400123456] now_text_examples(1) by (simp add: clock_ok_def)

end
