(* ===== verification/GwChronicle.thy ===== *)
theory GwChronicle
  imports GwSystem GwClock
begin

text \<open>
  The order of the local logs.  \<open>clocked\<close> is the gateway run with its wall clock: every line is stamped with the
  text of a reading of that clock (\<open>_now\<close>), and the clock does not go back.  Every file, read from its oldest
  backup to its last line, is then in chronological order, and its texts sort that way.
\<close>

section \<open>The time of a line\<close>

definition line_time :: "string \<Rightarrow> string option" where
  "line_time l =
     (case json_loads id l of
        Some (Inr (PDict d)) \<Rightarrow> (case map_of d ''time'' of Some (PStr t) \<Rightarrow> Some t | _ \<Rightarrow> None)
      | _ \<Rightarrow> None)"

lemma line_time_timed:
  assumes "json_line (timed now rec) l" "map_of rec ''time'' = None"
  shows "line_time l = Some now"
proof -
  have "map_of (rev rec) ''time'' = None" using assms(2) by (simp add: map_of_eq_None_iff)
  then have "map_of (timed now rec) ''time'' = Some (PStr now)" by (simp add: timed_def map_of_merge_dict)
  then show ?thesis using json_line_loads [OF assms(1), of id] by (simp add: line_time_def)
qed

text \<open>The lines of a file were stamped by clock readings in order, none later than \<open>us\<close>.\<close>

definition in_order :: "int \<Rightarrow> rfile \<Rightarrow> bool" where
  "in_order us f \<longleftrightarrow>
     (\<exists>ks. map line_time (rfile_lines f) = map (\<lambda>k. Some (now_text k)) ks \<and> sorted ks \<and> list_all (\<lambda>k. k \<le> us \<and> clock_ok k) ks)"

definition chronicle :: "int \<Rightarrow> fallback \<Rightarrow> bool" where
  "chronicle us fb \<longleftrightarrow> list_all (\<lambda>(p, f). in_order us f) (files fb)"

lemma in_order_later: "in_order us f \<Longrightarrow> us \<le> us' \<Longrightarrow> in_order us' f"
  unfolding in_order_def list_all_iff by (meson order_trans)

lemma in_order_append:
  assumes "in_order us f" "us \<le> k" "clock_ok k" "line_time l = Some (now_text k)"
  shows "in_order k (append_line mb bc l f)"
proof -
  obtain ks where ks: "map line_time (rfile_lines f) = map (\<lambda>k. Some (now_text k)) ks" "sorted ks"
      "list_all (\<lambda>k. k \<le> us \<and> clock_ok k) ks"
    using assms(1) unfolding in_order_def by blast
  obtain old where "rfile_lines f @ [l] = old @ rfile_lines (append_line mb bc l f)"
    using rotated.write_suffix [of mb bc l f] unfolding suffix_def by blast
  then have "rfile_lines (append_line mb bc l f) = drop (length old) (rfile_lines f @ [l])" by simp
  moreover have "map line_time (rfile_lines f @ [l]) = map (\<lambda>k. Some (now_text k)) (ks @ [k])"
    using ks(1) assms(4) by simp
  ultimately have "map line_time (rfile_lines (append_line mb bc l f)) = map (\<lambda>k. Some (now_text k)) (drop (length old) (ks @ [k]))"
    by (metis drop_map)
  moreover have "sorted (ks @ [k])" "list_all (\<lambda>k'. k' \<le> k \<and> clock_ok k') (ks @ [k])"
    using ks(2,3) assms(2,3) by (auto simp: sorted_append list_all_iff)
  then have "sorted (drop (length old) (ks @ [k]))" "list_all (\<lambda>k'. k' \<le> k \<and> clock_ok k') (drop (length old) (ks @ [k]))"
    by (simp_all only: sorted_wrt_drop list_all_iff) (metis in_set_dropD)
  ultimately show ?thesis unfolding in_order_def by blast
qed

lemma chronicle_later: "chronicle us fb \<Longrightarrow> us \<le> us' \<Longrightarrow> chronicle us' fb"
  unfolding chronicle_def by (erule list.pred_mono_strong) (auto intro: in_order_later)

lemma in_order_empty: "in_order us empty_file"
  by (simp add: in_order_def)

lemma chronicle_frame [simp, frame_simps]:
  "chronicle us (fb\<lparr>handlers := h\<rparr>) = chronicle us fb" "chronicle us (fb\<lparr>warnings := w\<rparr>) = chronicle us fb"
  "chronicle us (fb\<lparr>fallback_events := n\<rparr>) = chronicle us fb"
  by (simp_all add: chronicle_def)

lemma in_order_file_at: "chronicle us fb \<Longrightarrow> in_order us (file_at p fb)"
  by (auto simp: chronicle_def file_at_def in_order_empty list_all_iff dest!: map_of_SomeD split: option.splits)

lemma write_line_chronicle:
  assumes "chronicle us fb" "us \<le> k" "clock_ok k" "line_time l = Some (now_text k)"
  shows "chronicle k (write_line path l fb)"
proof (cases "map_of (handlers fb) path")
  case (Some b)
  obtain mb bc where b: "b = (mb, bc)" by force
  have "list_all (\<lambda>(p, f). in_order k f) (files fb)"
    using chronicle_later [OF assms(1,2)] by (simp add: chronicle_def)
  moreover have "in_order k (append_line mb bc l (file_at path fb))"
    using in_order_append [OF in_order_file_at [OF assms(1)] assms(2-4)] .
  ultimately have "list_all (\<lambda>(p, f). in_order k f) (AList.update path (append_line mb bc l (file_at path fb)) (files fb))"
    by (intro list_all_update) simp_all
  then show ?thesis by (simp add: write_line_def Some b chronicle_def)
qed (use chronicle_later [OF assms(1,2)] in \<open>simp add: write_line_def\<close>)

lemma write_record_chronicle:
  assumes "chronicle us fb" "us \<le> k" "clock_ok k" "line_time (json_dumps (PDict rec)) = Some (now_text k)"
  shows "chronicle k (write_record cfg io name rec fb)"
proof -
  obtain p fb' where h: "handler_for cfg io name fb = (p, fb')" by force
  then have "chronicle us fb'"
    using assms(1) by (auto simp: handler_for_def Let_def split: if_splits option.splits)
  then show ?thesis
    using write_line_chronicle [OF _ assms(2-4)] chronicle_later [OF _ assms(2)] h
    by (cases p) (auto simp: write_record_def)
qed

section \<open>Many writes\<close>

lemma fold_chronicle:
  assumes "\<And>x fb us. x \<in> set xs \<Longrightarrow> chronicle us fb \<Longrightarrow> us \<le> k x \<Longrightarrow> clock_ok (k x) \<Longrightarrow> chronicle (k x) (w x fb)"
    and "sorted (map k xs)" "list_all (\<lambda>x. us \<le> k x \<and> k x \<le> us' \<and> clock_ok (k x)) xs" "us \<le> us'" "chronicle us fb"
  shows "chronicle us' (fold w xs fb)"
  using assms
proof (induction xs arbitrary: us fb)
  case (Cons x xs)
  have "chronicle (k x) (w x fb)" using Cons.prems by simp
  moreover have "list_all (\<lambda>y. k x \<le> k y \<and> k y \<le> us' \<and> clock_ok (k y)) xs" "sorted (map k xs)" "k x \<le> us'"
    using Cons.prems by (auto simp: list_all_iff)
  ultimately show ?case using Cons.IH [of "k x" "w x fb"] Cons.prems(1) by simp
qed (simp add: chronicle_later)

lemma log_event_chronicle:
  assumes "chronicle us fb" "us \<le> k" "clock_ok k" "ee_time env = now_text k"
  shows "chronicle k (log_event cfg p env ev fb)"
proof -
  have "map_of (fallback_record ev b (event_attributes ev p)) ''time'' = None" for b
    by (simp add: fallback_record_def)
  then have "line_time (json_dumps (PDict (timed (ee_time env) (fallback_record ev (event_body ev) (event_attributes ev p)))))
      = Some (now_text k)"
    using line_time_timed [OF event_json_line] assms(4) by simp
  from write_record_chronicle [OF assms(1-3) this] show ?thesis
    by (simp add: log_event_def write_event_def Let_def)
qed

lemma record_transition_chronicle:
  assumes "chronicle us fb" "us \<le> k" "clock_ok k" "write_time env (component (fst t)) = now_text k"
  shows "chronicle k (record_transition cfg env mon t fb)"
proof -
  have "map_of (health_record cfg mon t) ''time'' = None" by (simp add: health_record_def split: prod.splits)
  moreover have "json_line (timed now (health_record cfg mon t)) (json_dumps (PDict (timed now (health_record cfg mon t))))" for now
    unfolding json_line_def by (blast intro: dumpable_timed health_record_dumpable)
  ultimately have "line_time (json_dumps (PDict (timed (write_time env (component (fst t))) (health_record cfg mon t))))
      = Some (now_text k)"
    using line_time_timed assms(4) by metis
  from write_record_chronicle [OF assms(1-3) this] show ?thesis
    by (simp add: record_transition_def write_health_def)
qed


section \<open>The gateway with its clock\<close>

lemma fresh_positions:
  "sorted (map fst (fresh cfg sha envs p ip i evs r)) \<and> list_all (\<lambda>x. i \<le> fst x) (fresh cfg sha envs p ip i evs r)"
proof (induction evs arbitrary: i r)
  case (Cons ev evs)
  obtain dup r' where d: "is_duplicate (dedupe_window_seconds cfg) (signature sha ev (event_body ev) p ip) (ee_now (envs i)) r = (dup, r')"
    by force
  then show ?case
    using Cons.IH [of "Suc i" r'] by (auto simp: fresh_Cons list_all_iff intro: Suc_leD)
qed simp

lemma subseq_set: "subseq xs ys \<Longrightarrow> set xs \<subseteq> set ys"
  by (induction rule: list_emb.induct) auto

lemma subseq_sorted: "subseq xs ys \<Longrightarrow> sorted ys \<Longrightarrow> sorted xs"
proof (induction rule: list_emb.induct)
  case (list_emb_Cons2 x y xs ys)
  then show ?case using subseq_set [of xs ys] by auto
qed auto

lemma transitions_in_order:
  "subseq (map (component \<circ> fst) (snd (fold observe rs (mon, ts)))) (map (component \<circ> fst) ts @ map component rs)"
proof (induction rs arbitrary: mon ts)
  case (Cons r rs)
  obtain mon' new where o: "observe r (mon, ts) = (mon', ts @ new)" "new = [] \<or> (\<exists>q. new = [(r, q)])"
    by (auto simp: observe_eq)
  have "subseq (map (component \<circ> fst) (snd (fold observe (r # rs) (mon, ts))))
      (map (component \<circ> fst) ts @ map (component \<circ> fst) new @ map component rs)"
    using Cons [of mon' "ts @ new"] o(1) by (simp add: comp_def)
  moreover have "subseq (map (component \<circ> fst) new @ map component rs) (map component (r # rs))"
    using o(2) by auto
  then have "subseq (map (component \<circ> fst) ts @ map (component \<circ> fst) new @ map component rs)
      (map (component \<circ> fst) ts @ map component (r # rs))"
    by (simp only: subseq_append')
  ultimately show ?case by (rule subseq_order.trans)
qed simp

text \<open>
  A request stamps event \<open>i\<close> at \<open>u i\<close>, a check the transition of a component at \<open>w c\<close>, in the order in which the code
  reads the clock.
\<close>

inductive clocked :: "settings \<Rightarrow> int \<Rightarrow> gateway \<Rightarrow> bool" for cfg where
  start: "clock_ok us \<Longrightarrow> clocked cfg us empty_gateway"
| pass: "clocked cfg us g \<Longrightarrow> us \<le> us' \<Longrightarrow> clock_ok us' \<Longrightarrow> clocked cfg us' g"
| request: "clocked cfg us g \<Longrightarrow> post_ingest cfg lib sha dump_len now envs body request authz g = (a, g')
    \<Longrightarrow> mono u \<Longrightarrow> \<forall>i. us \<le> u i \<and> u i \<le> us' \<and> ee_time (envs i) = now_text (u i) \<Longrightarrow> clock_ok us'
    \<Longrightarrow> clocked cfg us' g'"
| check: "clocked cfg us g \<Longrightarrow> sorted (map w (keys (stack_targets cfg)))
    \<Longrightarrow> list_all (\<lambda>c. us \<le> w c \<and> w c \<le> us' \<and> write_time env c = now_text (w c)) (keys (stack_targets cfg))
    \<Longrightarrow> us \<le> us' \<Longrightarrow> clock_ok us' \<Longrightarrow> clocked cfg us' (monitor_step cfg env g)"
| shutdown: "clocked cfg us g \<Longrightarrow> app_shutdown g = (flushed, g') \<Longrightarrow> clocked cfg us g'"

lemma clocked_reachable: "clocked cfg us g \<Longrightarrow> reachable cfg g \<and> clock_ok us"
  by (induction rule: clocked.induct)
    (auto intro: reachable.start reachable.step gw_step.serve gw_step.shutdown serve_step.intros)

lemma clock_between: "clock_ok a \<Longrightarrow> clock_ok b \<Longrightarrow> a \<le> k \<Longrightarrow> k \<le> b \<Longrightarrow> clock_ok k"
  by (simp add: clock_ok_def)

lemma post_ingest_fallback:
  "\<exists>p ip evs r. g_fallback (snd (post_ingest cfg lib sha dump_len now envs body request authz g))
     \<in> {g_fallback g, fold (\<lambda>(j, ev). log_event cfg p (envs j) ev) (fresh cfg sha envs p ip 0 evs r) (g_fallback g)}"
proof (cases "validate_batch cfg dump_len body")
  case (Inr evs)
  show ?thesis
  proof (cases "fst (rate_check cfg now request g)")
    case True
    then show ?thesis by (simp add: post_ingest_limited [OF Inr True])
  next
    case False
    let ?p = "principal_from_bearer cfg lib authz" and ?ip = "client_ip cfg request"
    show ?thesis
      by (intro exI [of _ ?p] exI [of _ ?ip] exI [of _ evs] exI [of _ "g_recent g"])
        (auto simp: post_ingest_accepted [OF Inr False] after_batch_def Let_def case_prod_beta)
  qed
qed (simp add: post_ingest_def)

lemma post_ingest_chronicle:
  assumes "chronicle us (g_fallback g)" "clock_ok us" "clock_ok us'" "mono u"
    and u: "\<forall>i. us \<le> u i \<and> u i \<le> us' \<and> ee_time (envs i) = now_text (u i)"
  shows "chronicle us' (g_fallback (snd (post_ingest cfg lib sha dump_len now envs body request authz g)))"
proof -
  have le: "us \<le> us'" using u order_trans by blast
  have "chronicle us' (fold (\<lambda>(j, ev). log_event cfg p (envs j) ev) (fresh cfg sha envs p ip 0 evs r) (g_fallback g))" for p ip evs r
  proof (rule fold_chronicle [where k = "\<lambda>x. u (fst x)" and us = us])
    show "chronicle (u (fst x)) ((\<lambda>(j, ev). log_event cfg p (envs j) ev) x fb)"
      if "chronicle s fb" "s \<le> u (fst x)" "clock_ok (u (fst x))" for x fb s
      using that u by (simp add: case_prod_beta log_event_chronicle)
    show "sorted (map (\<lambda>x. u (fst x)) (fresh cfg sha envs p ip 0 evs r))"
      using fresh_positions [of cfg sha envs p ip 0 evs r] assms(4)
      by (auto simp: sorted_map mono_def elim: sorted_wrt_mono_rel [rotated])
    show "list_all (\<lambda>x. us \<le> u (fst x) \<and> u (fst x) \<le> us' \<and> clock_ok (u (fst x))) (fresh cfg sha envs p ip 0 evs r)"
      using u clock_between [OF assms(2,3)] by (simp add: list_all_iff)
  qed (use le assms(1) in simp_all)
  then show ?thesis
    using chronicle_later [OF assms(1) le]
      post_ingest_fallback [of cfg lib sha dump_len now envs body request authz g] by auto
qed

lemma monitor_step_chronicle:
  assumes "chronicle us (g_fallback g)" "clock_ok us" "clock_ok us'" "us \<le> us'" "sorted (map w (keys (stack_targets cfg)))"
    and w: "list_all (\<lambda>c. us \<le> w c \<and> w c \<le> us' \<and> write_time env c = now_text (w c)) (keys (stack_targets cfg))"
  shows "chronicle us' (g_fallback (monitor_step cfg env g))"
proof -
  obtain mon ts where o: "observe_all (probe_all cfg env) (g_monitor g) = (mon, ts)" by force
  have "map component (probe_all cfg env) = keys (stack_targets cfg)"
    by (simp add: probe_all_def comp_def case_prod_beta)
  then have sub: "subseq (map (component \<circ> fst) ts) (keys (stack_targets cfg))"
    using transitions_in_order [of "probe_all cfg env" "g_monitor g" "[]"] o by (simp add: observe_all_def)
  have "chronicle us' (fold (record_transition cfg env mon) ts (g_fallback g))"
  proof (rule fold_chronicle [where k = "\<lambda>t. w (component (fst t))" and us = us])
    have c: "component (fst t) \<in> set (keys (stack_targets cfg))" if "t \<in> set ts" for t :: transition
      using that subseq_set [OF sub] by auto
    show "list_all (\<lambda>t. us \<le> w (component (fst t)) \<and> w (component (fst t)) \<le> us' \<and> clock_ok (w (component (fst t)))) ts"
      using c w clock_between [OF assms(2,3)] unfolding list_all_iff by blast
    have "sorted (map w (map (component \<circ> fst) ts))"
      using assms(5) subseq_map [OF sub, of w] by (rule subseq_sorted [rotated])
    then show "sorted (map (\<lambda>t. w (component (fst t))) ts)" by (simp add: comp_def)
    show "chronicle (w (component (fst t))) (record_transition cfg env mon t fb)"
      if "t \<in> set ts" "chronicle s fb" "s \<le> w (component (fst t))" "clock_ok (w (component (fst t)))" for t fb s
      using that w c unfolding list_all_iff by (blast intro: record_transition_chronicle)
  qed (use assms in simp_all)
  then show ?thesis by (simp add: monitor_step_def check_once_def o)
qed


lemma clocked_chronicle: "clocked cfg us g \<Longrightarrow> chronicle us (g_fallback g)"
proof (induction rule: clocked.induct)
  case (start us)
  show ?case by (simp add: chronicle_def empty_gateway_def new_fallback_def)
next
  case (request us g lib sha dump_len now envs body req authz a g' u us')
  have "clock_ok us" using clocked_reachable [OF request.hyps(1)] by blast
  from post_ingest_chronicle [OF request.IH this request.hyps(5,3,4), of cfg lib sha dump_len now body req authz] request.hyps(2)
  show ?case by simp
next
  case (check us g w us' env)
  have "clock_ok us" using clocked_reachable [OF check.hyps(1)] by blast
  from monitor_step_chronicle [OF check.IH this check.hyps(5,4,2,3)] show ?case .
next
  case (shutdown us g flushed g')
  then show ?case by (auto simp: app_shutdown_def fallback_close_def case_prod_beta Let_def)
qed (rule chronicle_later)

lemma in_order_sorted:
  assumes "in_order us f"
  shows "None \<notin> set (map line_time (rfile_lines f)) \<and> sorted (map (the \<circ> line_time) (rfile_lines f))"
proof -
  obtain ks where ks: "map line_time (rfile_lines f) = map (\<lambda>k. Some (now_text k)) ks" "sorted ks" "list_all (\<lambda>k. k \<le> us \<and> clock_ok k) ks"
    using assms unfolding in_order_def by blast
  have "map (the \<circ> line_time) (rfile_lines f) = map the (map line_time (rfile_lines f))" by simp
  also have "\<dots> = map now_text ks" unfolding ks(1) by simp
  finally have "map (the \<circ> line_time) (rfile_lines f) = map now_text ks" .
  moreover have "sorted (map now_text ks)"
    using ks(3) unfolding sorted_map list_all_iff
    by (intro sorted_wrt_mono_rel [OF _ ks(2)]) (simp add: now_text_mono)
  moreover have "None \<notin> set (map line_time (rfile_lines f))" unfolding ks(1) by auto
  ultimately show ?thesis by (simp only:) simp
qed

section \<open>Properties\<close>

text \<open>C17: the local logs are in chronological order.  In every state the gateway reaches while its wall clock does
  not go back, each of the two files, read from its oldest backup to its last line, has a time on every line, and
  these texts are sorted: requests, checks and rotations in any order never write a line before a later one.\<close>

theorem logs_chronological:
  assumes "clocked cfg us g"
  shows "list_all (\<lambda>(p, f). None \<notin> set (map line_time (rfile_lines f)) \<and> sorted (map (the \<circ> line_time) (rfile_lines f)))
    (files (g_fallback g))"
  using clocked_chronicle [OF assms] unfolding chronicle_def
  by (rule list.pred_mono_strong) (auto dest: in_order_sorted)

text \<open>Two checks of a gateway that logs locally: Loki goes down, then answers again.\<close>

definition two_checks :: gateway where
  "two_checks =
     monitor_step logged_settings (outage_env\<lparr>get_url := \<lambda>url. Inr 200, write_time := \<lambda>c. ''2000-02-29T00:00:00.123+00:00''\<rparr>)
       (monitor_step logged_settings (outage_env\<lparr>write_time := \<lambda>c. ''2000-02-28T23:59:59.999+00:00''\<rparr>) empty_gateway)"

lemma two_checks_clocked: "clocked logged_settings 951782400123456 two_checks"
proof -
  have "clocked logged_settings 951782399999999 empty_gateway" by (rule clocked.start) (simp add: clock_ok_def)
  then have "clocked logged_settings 951782399999999
      (monitor_step logged_settings (outage_env\<lparr>write_time := \<lambda>c. ''2000-02-28T23:59:59.999+00:00''\<rparr>) empty_gateway)"
    by (rule clocked.check [where w = "\<lambda>c. 951782399999999"])
      (simp_all add: now_text_examples clock_ok_def logged_settings_def default_settings_def)
  then show ?thesis unfolding two_checks_def
    by (rule clocked.check [where w = "\<lambda>c. 951782400123456"])
      (simp_all add: now_text_examples clock_ok_def logged_settings_def default_settings_def)
qed

lemma two_checks_files:
  "map (\<lambda>(p, f). (p, length (rfile_lines f))) (files (g_fallback two_checks)) = [((''/logs'', HEALTH_FILE), 2)]"
  by code_simp

theorem logs_chronological_witness:
  "\<exists>f. files (g_fallback two_checks) = [((''/logs'', HEALTH_FILE), f)] \<and> length (rfile_lines f) = 2
     \<and> sorted (map (the \<circ> line_time) (rfile_lines f))"
proof -
  obtain f where f: "files (g_fallback two_checks) = [((''/logs'', HEALTH_FILE), f)]" "length (rfile_lines f) = 2"
    using two_checks_files by auto
  then show ?thesis using logs_chronological [OF two_checks_clocked] by (intro exI [of _ f]) simp
qed

end
