(* ===== verification/GwSettings.thy ===== *)
theory GwSettings
  imports GwConfig
begin

text \<open>
  Reading the structured settings (\<open>obs_gateway/config.py\<close>): the two \<open>mode="before"\<close> validators, the
  annotations of the eight fields they serve, and the construction of the settings from the raw values
  that \<open>pydantic-settings\<close> hands over, with the class defaults for the fields that are not given.  What
  \<open>pydantic-settings\<close> makes of a text of the environment before that is the parameter \<open>decode\<close>: it decodes the
  fields of a structured type as JSON, unless they are marked \<open>NoDecode\<close>.  A field that fails makes the module raise
  at import (Pydantic's \<open>ValidationError\<close> and the \<open>SettingsError\<close> of a failed decoding are \<open>ValueError\<close>s).
\<close>

section \<open>The validators\<close>

text \<open>\<open>_parse_targets\<close> and \<open>_parse_list\<close>; \<open>comma_items\<close> is the comprehension of the latter.\<close>

definition parse_targets :: "(string \<Rightarrow> string) \<Rightarrow> pyval \<Rightarrow> pyval attempt" where
  "parse_targets ft v =
     (case v of
        PStr s \<Rightarrow> (if py_strip s \<noteq> [] then json_loads ft s else Some (Inr v))
      | _ \<Rightarrow> Some (Inr v))"

definition comma_items :: "string \<Rightarrow> string list" where
  "comma_items s = map py_strip (filter (\<lambda>item. py_strip item \<noteq> []) (py_split CHR '','' s))"

definition parse_list :: "(string \<Rightarrow> string) \<Rightarrow> pyval \<Rightarrow> pyval attempt" where
  "parse_list ft v =
     (case v of
        PStr v' \<Rightarrow>
          (let s = py_strip v'
           in if s \<noteq> [] then
                (if py_startswith s ''['' then json_loads ft s
                 else Some (Inr (PList (map PStr (comma_items s)))))
              else Some (Inr v))
      | _ \<Rightarrow> Some (Inr v))"

section \<open>The annotations\<close>

text \<open>\<open>list[str]\<close>, \<open>dict[str, str]\<close>, \<open>dict[str, list[str]]\<close> and \<open>list[tuple[str, str]]\<close> of a parsed value.\<close>

definition as_str :: "pyval \<Rightarrow> string option" where
  "as_str v = (case v of PStr s \<Rightarrow> Some s | _ \<Rightarrow> None)"

definition as_list :: "(pyval \<Rightarrow> 'a option) \<Rightarrow> pyval \<Rightarrow> 'a list option" where
  "as_list item v = (case v of PList xs \<Rightarrow> those (map item xs) | _ \<Rightarrow> None)"

definition as_dict :: "(pyval \<Rightarrow> 'a option) \<Rightarrow> pyval \<Rightarrow> (string, 'a) dict option" where
  "as_dict item v =
     (case v of PDict kvs \<Rightarrow> those (map (\<lambda>(k, x). map_option (Pair k) (item x)) kvs) | _ \<Rightarrow> None)"

definition as_pair :: "pyval \<Rightarrow> (string \<times> string) option" where
  "as_pair v = (case as_list as_str v of Some [a, b] \<Rightarrow> Some (a, b) | _ \<Rightarrow> None)"

section \<open>The settings\<close>

definition and_load :: "'a attempt \<Rightarrow> ('a \<Rightarrow> 'b attempt) \<Rightarrow> 'b attempt" where
  "and_load r f = (case r of None \<Rightarrow> None | Some (Inl e) \<Rightarrow> Some (Inl e) | Some (Inr x) \<Rightarrow> f x)"

text \<open>One field: its default when nothing is given, else validated, then checked against its annotation.\<close>

definition load_field :: "(pyval \<Rightarrow> pyval attempt) \<Rightarrow> (pyval \<Rightarrow> 'a option) \<Rightarrow> 'a \<Rightarrow> pyval option \<Rightarrow> 'a attempt" where
  "load_field validator annotation d given =
     (case given of
        None \<Rightarrow> Some (Inr d)
      | Some v \<Rightarrow> and_load (validator v) (\<lambda>w. Some (case annotation w of None \<Rightarrow> Inl ValueError | Some x \<Rightarrow> Inr x)))"

definition load_targets :: "(string \<Rightarrow> string) \<Rightarrow> (string, pyval) dict \<Rightarrow> (pyval \<Rightarrow> 'a option) \<Rightarrow> 'a \<Rightarrow> string \<Rightarrow> 'a attempt" where
  "load_targets ft raw annotation d name = load_field (parse_targets ft) annotation d (map_of raw name)"

definition load_words :: "(string \<Rightarrow> string) \<Rightarrow> (string, pyval) dict \<Rightarrow> string list \<Rightarrow> string \<Rightarrow> string list attempt" where
  "load_words ft raw d name = load_field (parse_list ft) (as_list as_str) d (map_of raw name)"

text \<open>\<open>base\<close> holds the scalar settings, and the class defaults of the structured ones.\<close>

definition load_settings :: "(string \<Rightarrow> string) \<Rightarrow> (string, pyval) dict \<Rightarrow> settings \<Rightarrow> settings attempt" where
  "load_settings ft raw base =
     and_load (load_words ft raw (jwt_algorithms base) ''jwt_algorithms'') (\<lambda>algs.
     and_load (load_targets ft raw (as_dict (as_list as_str)) (authz_role_permissions base) ''authz_role_permissions'') (\<lambda>perms.
     and_load (load_targets ft raw (as_dict as_str) (authz_grafana_roles base) ''authz_grafana_roles'') (\<lambda>roles.
     and_load (load_targets ft raw (as_list as_pair) (authz_route_actions base) ''authz_route_actions'') (\<lambda>routes.
     and_load (load_targets ft raw (as_dict as_str) (health_targets base) ''health_targets'') (\<lambda>health.
     and_load (load_targets ft raw (as_dict as_str) (stack_targets base) ''stack_targets'') (\<lambda>stack.
     and_load (load_words ft raw (fallback_trigger_components base) ''fallback_trigger_components'') (\<lambda>triggers.
     and_load (load_words ft raw (cors_allow_origins base) ''cors_allow_origins'') (\<lambda>origins.
       Some (Inr (base\<lparr>jwt_algorithms := algs, authz_role_permissions := perms, authz_grafana_roles := roles,
         authz_route_actions := routes, health_targets := health, stack_targets := stack,
         fallback_trigger_components := triggers, cors_allow_origins := origins\<rparr>))))))))))"

text \<open>The settings of a process: the texts of the environment, decoded and then loaded.\<close>

definition decode_env ::
  "(string \<Rightarrow> string \<Rightarrow> pyval attempt) \<Rightarrow> (string, string) dict \<Rightarrow> (string, pyval) dict attempt" where
  "decode_env decode env =
     foldr (\<lambda>(name, s) r. and_load (decode name s) (\<lambda>v. and_load r (\<lambda>raw. Some (Inr ((name, v) # raw))))) env (Some (Inr []))"

definition load_env ::
  "(string \<Rightarrow> string \<Rightarrow> pyval attempt) \<Rightarrow> (string \<Rightarrow> string) \<Rightarrow> (string, string) dict \<Rightarrow> settings \<Rightarrow> settings attempt" where
  "load_env decode ft env base = and_load (decode_env decode env) (\<lambda>raw. load_settings ft raw base)"

definition TARGET_FIELDS :: "string list" where
  "TARGET_FIELDS =
     [''health_targets'', ''stack_targets'', ''authz_role_permissions'', ''authz_grafana_roles'', ''authz_route_actions'']"

definition NO_DECODE_FIELDS :: "string list" where
  "NO_DECODE_FIELDS = [''jwt_algorithms'', ''fallback_trigger_components'', ''cors_allow_origins'']"

text \<open>What is relied on of \<open>pydantic-settings\<close>.\<close>

definition decodes_json :: "(string \<Rightarrow> string) \<Rightarrow> (string \<Rightarrow> string \<Rightarrow> pyval attempt) \<Rightarrow> bool" where
  "decodes_json ft decode \<longleftrightarrow>
     (\<forall>name s. (name \<in> set TARGET_FIELDS \<longrightarrow> decode name s = json_loads ft s)
        \<and> (name \<in> set NO_DECODE_FIELDS \<longrightarrow> decode name s = Some (Inr (PStr s)))
        \<and> (\<forall>e. decode name s = Some (Inl e) \<longrightarrow> e = ValueError))"

text \<open>The maps of the settings are dictionaries.\<close>

definition settings_ok :: "settings \<Rightarrow> bool" where
  "settings_ok cfg \<longleftrightarrow> wf_dict (authz_role_permissions cfg) \<and> wf_dict (authz_grafana_roles cfg)
     \<and> wf_dict (health_targets cfg) \<and> wf_dict (stack_targets cfg)"

text \<open>The structured settings written as JSON texts, the form the environment holds.\<close>

definition settings_values :: "settings \<Rightarrow> (string, pyval) dict" where
  "settings_values cfg =
     (let strs = (\<lambda>ws. PList (map PStr ws));
          strmap = (\<lambda>d. PDict (map (\<lambda>(k, v). (k, PStr v)) d))
      in [(''jwt_algorithms'', strs (jwt_algorithms cfg)),
          (''authz_role_permissions'', PDict (map (\<lambda>(k, ws). (k, strs ws)) (authz_role_permissions cfg))),
          (''authz_grafana_roles'', strmap (authz_grafana_roles cfg)),
          (''authz_route_actions'', PList (map (\<lambda>(p, a). strs [p, a]) (authz_route_actions cfg))),
          (''health_targets'', strmap (health_targets cfg)),
          (''stack_targets'', strmap (stack_targets cfg)),
          (''fallback_trigger_components'', strs (fallback_trigger_components cfg)),
          (''cors_allow_origins'', strs (cors_allow_origins cfg))])"

definition settings_env :: "settings \<Rightarrow> (string, string) dict" where
  "settings_env cfg = map (\<lambda>(name, v). (name, json_dumps v)) (settings_values cfg)"

definition settings_json :: "settings \<Rightarrow> (string, pyval) dict" where
  "settings_json cfg = map (\<lambda>(name, s). (name, PStr s)) (settings_env cfg)"

section \<open>Laws\<close>

lemma and_load_simps [simp]:
  "and_load None f = None" "and_load (Some (Inl e)) f = Some (Inl e)" "and_load (Some (Inr x)) f = f x"
  by (simp_all add: and_load_def)

lemma as_str_PStr [simp]: "as_str (PStr s) = Some s"
  by (simp add: as_str_def)

lemma those_map: "(\<And>x. x \<in> set xs \<Longrightarrow> f (g x) = Some x) \<Longrightarrow> those (map (\<lambda>x. f (g x)) xs) = Some xs"
  by (induction xs) auto

lemma as_list_map: "(\<And>x. x \<in> set xs \<Longrightarrow> item (g x) = Some x) \<Longrightarrow> as_list item (PList (map g xs)) = Some xs"
  using those_map [of xs item g] by (simp add: as_list_def comp_def)

lemma as_list_strs [simp]: "as_list as_str (PList (map PStr ws)) = Some ws"
  by (rule as_list_map) simp

lemma as_dict_map:
  "(\<And>x. item (g x) = Some x) \<Longrightarrow> as_dict item (PDict (map (\<lambda>(k, x). (k, g x)) d)) = Some d"
  using those_map [of d "\<lambda>(k, x). map_option (Pair k) (item x)" "\<lambda>(k, x). (k, g x)"]
  by (simp add: as_dict_def comp_def case_prod_beta)

lemma parse_raises:
  "parse_targets ft v = Some (Inl e) \<Longrightarrow> e = ValueError" "parse_list ft v = Some (Inl e) \<Longrightarrow> e = ValueError"
  by (auto simp: parse_targets_def parse_list_def Let_def split: pyval.splits if_splits dest: json_loads_raises)


lemma load_field_raises: "load_field validator annotation d g = Some (Inl e) \<Longrightarrow> (\<And>v e. validator v = Some (Inl e) \<Longrightarrow> e = ValueError) \<Longrightarrow> e = ValueError"
  by (auto simp: load_field_def and_load_def split: option.splits sum.splits)

lemma and_load_Inr: "and_load r f = Some (Inr y) \<Longrightarrow> (\<And>x. r = Some (Inr x) \<Longrightarrow> f x = Some (Inr y) \<Longrightarrow> P) \<Longrightarrow> P"
  by (auto simp: and_load_def split: option.splits sum.splits)

lemma and_load_Inl: "and_load r f = Some (Inl e) \<Longrightarrow> (r = Some (Inl e) \<Longrightarrow> P) \<Longrightarrow> (\<And>x. r = Some (Inr x) \<Longrightarrow> f x = Some (Inl e) \<Longrightarrow> P) \<Longrightarrow> P"
  by (auto simp: and_load_def split: option.splits sum.splits)

text \<open>A field given as the JSON text of its value is that value.\<close>

lemma dumpable_strs [simp]: "dumpable (PList (map PStr ws))"
  by (simp add: list_all_iff)

lemma py_strip_Nil_iff: "py_strip s = [] \<longleftrightarrow> list_all is_space s"
proof
  assume "py_strip s = []"
  then show "list_all is_space s" using py_strip_infix [of s] by auto
qed (auto simp: py_strip_def py_lstrip_def list_all_iff dest: set_dropWhileD)

lemma py_strip_between: "\<not> is_space a \<Longrightarrow> \<not> is_space b \<Longrightarrow> py_strip (a # s @ [b]) = a # s @ [b]"
  by (simp add: py_strip_def py_lstrip_def)

lemma dumps_not_blank: "dumpable v \<Longrightarrow> py_strip (json_dumps v) \<noteq> []"
  using dumps_start [of v] json_dumps_ascii [OF dumpable_floats, of v]
  by (auto simp: py_strip_Nil_iff is_space_def is_json_ws_def ascii_print_def)

lemma parse_targets_dumps: "dumpable v \<Longrightarrow> parse_targets ft (PStr (json_dumps v)) = Some (Inr v)"
  by (simp add: parse_targets_def dumps_not_blank loads_dumps)

lemma parse_list_dumps: "parse_list ft (PStr (json_dumps (PList (map PStr ws)))) = Some (Inr (PList (map PStr ws)))"
proof -
  let ?v = "PList (map PStr ws)"
  have "\<not> is_space (CHR ''['')" "\<not> is_space (CHR '']'')" by (simp_all add: is_space_def)
  then have strip: "py_strip (json_dumps ?v) = json_dumps ?v"
    using py_strip_between by simp
  then have "json_loads ft (py_strip (json_dumps ?v)) = Some (Inr ?v)"
    using loads_dumps [of ?v ft] by (simp only: dumpable_strs)
  moreover have "py_startswith (json_dumps ?v) ''[''" by (simp add: py_startswith_def)
  moreover have "json_dumps ?v \<noteq> []" by simp
  ultimately show ?thesis
    unfolding parse_list_def by (simp only: pyval.case Let_def strip if_True simp_thms)
qed

lemma load_dumps:
  "dumpable v \<Longrightarrow> annotation v = Some x \<Longrightarrow> load_field (parse_targets ft) annotation d (Some (PStr (json_dumps v))) = Some (Inr x)"
  "load_field (parse_list ft) (as_list as_str) d' (Some (PStr (json_dumps (PList (map PStr ws))))) = Some (Inr ws)"
  by (simp_all add: load_field_def parse_targets_dumps parse_list_dumps del: json_dumps.simps)

lemma load_given:
  assumes "map_of raw name = Some (PStr (json_dumps v))"
  shows "dumpable v \<Longrightarrow> annotation v = Some x \<Longrightarrow> load_targets ft raw annotation d name = Some (Inr x)"
    and "v = PList (map PStr ws) \<Longrightarrow> load_words ft raw d' name = Some (Inr ws)"
proof -
  show "load_targets ft raw annotation d name = Some (Inr x)" if "dumpable v" "annotation v = Some x"
    unfolding load_targets_def assms using that by (rule load_dumps(1))
  show "load_words ft raw d' name = Some (Inr ws)" if "v = PList (map PStr ws)"
    unfolding load_words_def assms that by (rule load_dumps(2))
qed

text \<open>The eight texts, and that each is the writing of a value its annotation accepts.\<close>

abbreviation strs :: "string list \<Rightarrow> pyval" where
  "strs ws \<equiv> PList (map PStr ws)"

abbreviation str_dict :: "(string, string) dict \<Rightarrow> pyval" where
  "str_dict d \<equiv> PDict (map (\<lambda>(k, v). (k, PStr v)) d)"

lemma settings_json_lookup:
  "map_of (settings_json cfg) ''jwt_algorithms'' = Some (PStr (json_dumps (strs (jwt_algorithms cfg))))"
  "map_of (settings_json cfg) ''authz_role_permissions''
     = Some (PStr (json_dumps (PDict (map (\<lambda>(k, ws). (k, strs ws)) (authz_role_permissions cfg)))))"
  "map_of (settings_json cfg) ''authz_grafana_roles'' = Some (PStr (json_dumps (str_dict (authz_grafana_roles cfg))))"
  "map_of (settings_json cfg) ''authz_route_actions''
     = Some (PStr (json_dumps (PList (map (\<lambda>(p, a). strs [p, a]) (authz_route_actions cfg)))))"
  "map_of (settings_json cfg) ''health_targets'' = Some (PStr (json_dumps (str_dict (health_targets cfg))))"
  "map_of (settings_json cfg) ''stack_targets'' = Some (PStr (json_dumps (str_dict (stack_targets cfg))))"
  "map_of (settings_json cfg) ''fallback_trigger_components''
     = Some (PStr (json_dumps (strs (fallback_trigger_components cfg))))"
  "map_of (settings_json cfg) ''cors_allow_origins'' = Some (PStr (json_dumps (strs (cors_allow_origins cfg))))"
  by (simp_all add: settings_json_def settings_env_def settings_values_def Let_def del: json_dumps.simps)

lemma dumpable_dict: "dumpable (PDict (map (\<lambda>(k, x). (k, g x)) d)) \<longleftrightarrow> wf_dict d \<and> list_all (\<lambda>(k, x). dumpable (g x)) d"
  by (simp add: wf_dict_def list_all_iff comp_def case_prod_beta)

lemma annotations_accept:
  "as_dict as_str (str_dict d) = Some d"
  "as_dict (as_list as_str) (PDict (map (\<lambda>(k, ws). (k, strs ws)) e)) = Some e"
  "as_list as_pair (PList (map (\<lambda>(p, a). strs [p, a]) f)) = Some f"
  by (rule as_dict_map, simp, rule as_dict_map, simp, rule as_list_map) (auto simp: as_pair_def as_list_def)

lemma load_word_list:
  "map_of raw name = Some (PStr (json_dumps (strs ws))) \<Longrightarrow> load_words ft raw d name = Some (Inr ws)"
  by (rule load_given(2) [OF _ refl])

lemma load_str_dict:
  assumes "map_of raw name = Some (PStr (json_dumps (str_dict d)))" "wf_dict d"
  shows "load_targets ft raw (as_dict as_str) d' name = Some (Inr d)"
proof (rule load_given(1) [OF assms(1)])
  show "dumpable (str_dict d)" using assms(2) by (simp only: dumpable_dict) (simp add: list_all_iff)
qed (rule annotations_accept)

lemma load_role_map:
  assumes "map_of raw name = Some (PStr (json_dumps (PDict (map (\<lambda>(k, ws). (k, strs ws)) e))))" "wf_dict e"
  shows "load_targets ft raw (as_dict (as_list as_str)) d' name = Some (Inr e)"
proof (rule load_given(1) [OF assms(1)])
  show "dumpable (PDict (map (\<lambda>(k, ws). (k, strs ws)) e))"
    using assms(2) by (simp only: dumpable_dict dumpable_strs) (simp add: list_all_iff)
qed (rule annotations_accept)

lemma load_pairs:
  assumes "map_of raw name = Some (PStr (json_dumps (PList (map (\<lambda>(p, a). strs [p, a]) f))))"
  shows "load_targets ft raw (as_list as_pair) d' name = Some (Inr f)"
proof (rule load_given(1) [OF assms])
  show "dumpable (PList (map (\<lambda>(p, a). strs [p, a]) f))" by (auto simp: list_all_iff)
qed (rule annotations_accept)

section \<open>The comma form\<close>

lemma split_when_Cons: "\<not> p c \<Longrightarrow> split_when p (c # s) = (c # hd (split_when p s)) # tl (split_when p s)"
  by (cases "split_when p s") auto

lemma split_when_snoc:
  "\<not> p c \<Longrightarrow> split_when p (s @ [c]) = butlast (split_when p s) @ [last (split_when p s) @ [c]]"
  by (induction s) (auto split: list.splits)

lemma py_strip_Cons: "is_space c \<Longrightarrow> py_strip (c # s) = py_strip s"
  by (simp add: py_strip_def py_lstrip_def)

lemma py_strip_snoc: "is_space c \<Longrightarrow> py_strip (s @ [c]) = py_strip s"
proof (cases "list_all is_space s")
  case True
  moreover assume "is_space c"
  ultimately have "py_strip s = []" "py_strip (s @ [c]) = []" by (simp_all add: py_strip_Nil_iff)
  then show ?thesis by simp
qed (auto simp: py_strip_def py_lstrip_def dropWhile_append list_all_iff)

lemma strip_items_pad:
  assumes "list_all is_space a" "list_all is_space b"
  shows "map py_strip (py_split CHR '','' (a @ s @ b)) = map py_strip (py_split CHR '','' s)"
proof -
  have no_comma: "c \<noteq> CHR '',''" if "is_space c" for c
    using that by (auto simp: is_space_def)
  have "map py_strip (py_split CHR '','' (a @ t)) = map py_strip (py_split CHR '','' t)" for t
    using assms(1)
  proof (induction a)
    case (Cons c a)
    obtain w ws where w: "split_when (\<lambda>x. x = CHR '','') (a @ t) = w # ws"
      using split_when_nonempty neq_Nil_conv by metis
    from Cons no_comma [of c] have c: "is_space c" "c \<noteq> CHR '',''" "list_all is_space a" by auto
    have "split_when (\<lambda>x. x = CHR '','') (c # a @ t) = (c # w) # ws"
      using c(2) w by (simp add: split_when_Cons)
    then show ?case
      using Cons.IH [OF c(3)] w c(1) by (simp add: py_split_def py_strip_Cons)
  qed simp
  moreover have "map py_strip (py_split CHR '','' (s @ b)) = map py_strip (py_split CHR '','' s)"
    using assms(2)
  proof (induction b rule: rev_induct)
    case (snoc c b)
    obtain ws w where w: "split_when (\<lambda>x. x = CHR '','') (s @ b) = ws @ [w]"
      using split_when_nonempty rev_exhaust by metis
    from snoc no_comma [of c] have c: "is_space c" "c \<noteq> CHR '',''" "list_all is_space b" by auto
    have "split_when (\<lambda>x. x = CHR '','') (s @ b @ [c]) = ws @ [w @ [c]]"
      using split_when_snoc [of "\<lambda>x. x = CHR '',''" c "s @ b"] c(2) w by simp
    then show ?case
      using snoc.IH [OF c(3)] w c(1) by (simp add: py_split_def py_strip_snoc)
  qed simp
  ultimately show ?thesis by simp
qed


lemma comma_items_strip: "comma_items (py_strip s) = filter (\<lambda>w. w \<noteq> []) (map py_strip (py_split CHR '','' s))"
proof -
  obtain a b where ab: "s = a @ py_strip s @ b" "list_all is_space a" "list_all is_space b"
    using py_strip_infix by blast
  have "map py_strip (py_split CHR '','' s) = map py_strip (py_split CHR '','' (py_strip s))"
    by (subst ab(1)) (rule strip_items_pad [OF ab(2,3)])
  then show ?thesis by (simp add: comma_items_def filter_map comp_def)
qed

section \<open>What the settings should be\<close>

text \<open>What a given text or object means for a field, and the default.\<close>

definition target_given :: "(string \<Rightarrow> string) \<Rightarrow> (string, pyval) dict \<Rightarrow> string \<Rightarrow> (pyval \<Rightarrow> 'a option) \<Rightarrow> 'a \<Rightarrow> 'a \<Rightarrow> bool" where
  "target_given ft raw name annotation d x \<longleftrightarrow>
     (case map_of raw name of
        None \<Rightarrow> x = d
      | Some (PStr s) \<Rightarrow> py_strip s \<noteq> [] \<and> (\<exists>w. json_loads ft s = Some (Inr w) \<and> annotation w = Some x)
      | Some v \<Rightarrow> annotation v = Some x)"

definition words_given :: "(string \<Rightarrow> string) \<Rightarrow> (string, pyval) dict \<Rightarrow> string \<Rightarrow> string list \<Rightarrow> string list \<Rightarrow> bool" where
  "words_given ft raw name d x \<longleftrightarrow>
     (case map_of raw name of
        None \<Rightarrow> x = d
      | Some (PStr s) \<Rightarrow>
          py_strip s \<noteq> []
          \<and> (if py_startswith (py_strip s) ''['' then json_loads ft (py_strip s) = Some (Inr (PList (map PStr x)))
             else x = filter (\<lambda>w. w \<noteq> []) (map py_strip (py_split CHR '','' s)))
      | Some v \<Rightarrow> v = PList (map PStr x))"

definition settings_given :: "(string \<Rightarrow> string) \<Rightarrow> (string, pyval) dict \<Rightarrow> settings \<Rightarrow> settings \<Rightarrow> bool" where
  "settings_given ft raw base cfg \<longleftrightarrow>
     words_given ft raw ''jwt_algorithms'' (jwt_algorithms base) (jwt_algorithms cfg)
     \<and> target_given ft raw ''authz_role_permissions'' (as_dict (as_list as_str)) (authz_role_permissions base) (authz_role_permissions cfg)
     \<and> target_given ft raw ''authz_grafana_roles'' (as_dict as_str) (authz_grafana_roles base) (authz_grafana_roles cfg)
     \<and> target_given ft raw ''authz_route_actions'' (as_list as_pair) (authz_route_actions base) (authz_route_actions cfg)
     \<and> target_given ft raw ''health_targets'' (as_dict as_str) (health_targets base) (health_targets cfg)
     \<and> target_given ft raw ''stack_targets'' (as_dict as_str) (stack_targets base) (stack_targets cfg)
     \<and> words_given ft raw ''fallback_trigger_components'' (fallback_trigger_components base) (fallback_trigger_components cfg)
     \<and> words_given ft raw ''cors_allow_origins'' (cors_allow_origins base) (cors_allow_origins cfg)
     \<and> cfg = base\<lparr>jwt_algorithms := jwt_algorithms cfg, authz_role_permissions := authz_role_permissions cfg,
          authz_grafana_roles := authz_grafana_roles cfg, authz_route_actions := authz_route_actions cfg,
          health_targets := health_targets cfg, stack_targets := stack_targets cfg,
          fallback_trigger_components := fallback_trigger_components cfg, cors_allow_origins := cors_allow_origins cfg\<rparr>"

lemma as_dict_text [simp]: "as_dict item (PStr s) = None"
  by (simp add: as_dict_def)

lemma as_list_text [simp]: "as_list item (PStr s) = None"
  by (simp add: as_list_def)

lemma as_list_str_iff: "as_list as_str v = Some ws \<longleftrightarrow> v = PList (map PStr ws)"
proof
  assume a: "as_list as_str v = Some ws"
  then obtain xs where v: "v = PList xs" "those (map as_str xs) = Some ws" by (auto simp: as_list_def split: pyval.splits)
  then have "xs = map PStr ws"
    by (induction xs arbitrary: ws v) (auto simp: as_str_def split: option.splits pyval.splits)
  then show "v = PList (map PStr ws)" using v by simp
qed simp

lemma load_targets_given:
  assumes "\<And>s. annotation (PStr s) = None"
  shows "load_targets ft raw annotation d name = Some (Inr x) \<longleftrightarrow> target_given ft raw name annotation d x"
proof (cases "map_of raw name")
  case (Some v)
  then show ?thesis
    using assms by (cases v) (auto simp: load_targets_def target_given_def load_field_def parse_targets_def and_load_def
        split: option.splits sum.splits)
qed (auto simp: load_targets_def target_given_def load_field_def)

lemma strs_inject: "map PStr xs = map PStr ys \<longleftrightarrow> xs = ys"
  by (rule inj_map_eq_map) (simp add: inj_def)

lemma load_words_given: "load_words ft raw d name = Some (Inr x) \<longleftrightarrow> words_given ft raw name d x"
proof (cases "map_of raw name")
  case (Some v)
  then show ?thesis
    by (cases v) (auto simp: load_words_def words_given_def load_field_def parse_list_def and_load_def as_list_str_iff strs_inject
        comma_items_strip Let_def split: option.splits sum.splits)
qed (auto simp: load_words_def words_given_def load_field_def)

lemmas fields_given = load_words_given load_targets_given [of "as_dict item" for item, OF as_dict_text]
  load_targets_given [of "as_list item" for item, OF as_list_text]

lemma and_load_Inr_iff: "and_load r f = Some (Inr y) \<longleftrightarrow> (\<exists>x. r = Some (Inr x) \<and> f x = Some (Inr y))"
  by (auto simp: and_load_def split: option.splits sum.splits)

lemma load_settings_given: "load_settings ft raw base = Some (Inr cfg) \<longleftrightarrow> settings_given ft raw base cfg"
proof
  assume "load_settings ft raw base = Some (Inr cfg)"
  then show "settings_given ft raw base cfg"
    unfolding load_settings_def and_load_Inr_iff fields_given by (auto simp: settings_given_def)
next
  assume "settings_given ft raw base cfg"
  then show "load_settings ft raw base = Some (Inr cfg)"
    unfolding load_settings_def settings_given_def fields_given [symmetric] by simp
qed

lemma load_settings_raises: "load_settings ft raw base = Some (Inl e) \<Longrightarrow> e = ValueError"
  unfolding load_settings_def load_targets_def load_words_def
  by (auto elim!: and_load_Inl dest!: load_field_raises intro: parse_raises)

text \<open>Without escapes nothing leaves the character model.\<close>

lemma and_load_None: "and_load r f = None \<longleftrightarrow> r = None \<or> (\<exists>x. r = Some (Inr x) \<and> f x = None)"
  by (auto simp: and_load_def split: option.splits sum.splits)

definition no_escapes :: "pyval \<Rightarrow> bool" where
  "no_escapes v \<longleftrightarrow> (case v of PStr s \<Rightarrow> CHR 0x5C \<notin> set s | _ \<Rightarrow> True)"

lemma parse_total:
  assumes "no_escapes v"
  shows "parse_targets ft v \<noteq> None" "parse_list ft v \<noteq> None"
proof -
  have "json_loads ft s \<noteq> None" "json_loads ft (py_strip s) \<noteq> None" if "v = PStr s" for s
    using assms that json_loads_total [of s ft] json_loads_total [of "py_strip s" ft] set_py_strip [of s] by (auto simp: no_escapes_def)
  then show "parse_targets ft v \<noteq> None" "parse_list ft v \<noteq> None"
    by (auto simp: parse_targets_def parse_list_def Let_def split: pyval.splits)
qed

lemma load_field_total: "(\<And>v. g = Some v \<Longrightarrow> \<exists>r. validator v = Some r) \<Longrightarrow> load_field validator annotation d g \<noteq> None"
  by (auto simp: load_field_def and_load_def split: option.splits sum.splits)

lemma load_settings_total:
  assumes "list_all (\<lambda>(name, v). no_escapes v) raw"
  shows "load_settings ft raw base \<noteq> None"
proof -
  have v: "no_escapes v" if "map_of raw name = Some v" for name v
    using assms map_of_SomeD [OF that] by (auto simp: list_all_iff)
  show ?thesis
    unfolding load_settings_def load_targets_def load_words_def
    by (simp add: and_load_None load_field_total parse_total [OF v, simplified])
qed

section \<open>The environment\<close>

definition annotated :: "string \<Rightarrow> pyval \<Rightarrow> bool" where
  "annotated name w \<longleftrightarrow>
     (if name = ''authz_role_permissions'' then as_dict (as_list as_str) w \<noteq> None
      else if name = ''authz_route_actions'' then as_list as_pair w \<noteq> None
      else as_dict as_str w \<noteq> None)"

lemma load_targets_parsed:
  "load_targets ft raw annotation d name = Some (Inr x) \<Longrightarrow> map_of raw name = Some v
     \<Longrightarrow> \<exists>w. parse_targets ft v = Some (Inr w) \<and> annotation w = Some x"
  by (auto simp: load_targets_def load_field_def and_load_Inr_iff split: option.splits)

lemma load_settings_annotated:
  assumes "load_settings ft raw base = Some (Inr cfg)" "name \<in> set TARGET_FIELDS" "map_of raw name = Some v"
  shows "\<exists>w. parse_targets ft v = Some (Inr w) \<and> annotated name w"
proof -
  from assms(1) obtain e r f h st where
    "load_targets ft raw (as_dict (as_list as_str)) (authz_role_permissions base) ''authz_role_permissions'' = Some (Inr e)"
    "load_targets ft raw (as_dict as_str) (authz_grafana_roles base) ''authz_grafana_roles'' = Some (Inr r)"
    "load_targets ft raw (as_list as_pair) (authz_route_actions base) ''authz_route_actions'' = Some (Inr f)"
    "load_targets ft raw (as_dict as_str) (health_targets base) ''health_targets'' = Some (Inr h)"
    "load_targets ft raw (as_dict as_str) (stack_targets base) ''stack_targets'' = Some (Inr st)"
    unfolding load_settings_def and_load_Inr_iff by blast
  from this [THEN load_targets_parsed] assms(2,3) show ?thesis
    by (force simp: TARGET_FIELDS_def annotated_def)
qed

lemma decode_env_Cons:
  "decode_env decode ((name, s) # env) = and_load (decode name s) (\<lambda>v. and_load (decode_env decode env) (\<lambda>raw. Some (Inr ((name, v) # raw))))"
  by (simp add: decode_env_def)

lemma decode_env_lookup:
  "decode_env decode env = Some (Inr raw) \<Longrightarrow> map_of env name = Some s \<Longrightarrow> \<exists>v. map_of raw name = Some v \<and> decode name s = Some (Inr v)"
proof (induction env arbitrary: raw)
  case (Cons x env)
  then show ?case by (cases x) (auto simp: decode_env_Cons and_load_Inr_iff split: if_splits)
qed simp

lemma decode_env_raises: "decodes_json ft decode \<Longrightarrow> decode_env decode env = Some (Inl e) \<Longrightarrow> e = ValueError"
proof (induction env)
  case (Cons x env)
  then show ?case by (cases x) (auto simp: decode_env_Cons decodes_json_def elim!: and_load_Inl)
qed (simp add: decode_env_def)

lemma load_env_raises: "decodes_json ft decode \<Longrightarrow> load_env decode ft env base = Some (Inl e) \<Longrightarrow> e = ValueError"
  unfolding load_env_def by (auto elim!: and_load_Inl dest: decode_env_raises load_settings_raises)

text \<open>The texts of the settings, as the validators get them.\<close>

definition decoded_values :: "settings \<Rightarrow> (string, pyval) dict" where
  "decoded_values cfg = map (\<lambda>(name, v). (name, if name \<in> set NO_DECODE_FIELDS then PStr (json_dumps v) else v)) (settings_values cfg)"

lemma settings_values_dumpable: "settings_ok cfg \<Longrightarrow> list_all (\<lambda>(name, v). dumpable v) (settings_values cfg)"
  unfolding settings_values_def Let_def settings_ok_def
  by (simp only: list.pred_inject prod.case dumpable_dict dumpable_strs) (auto simp: list_all_iff)

lemma decode_settings_env:
  assumes "settings_ok cfg" "decodes_json ft decode"
  shows "decode_env decode (settings_env cfg) = Some (Inr (decoded_values cfg))"
proof -
  have "decode_env decode (map (\<lambda>(name, v). (name, json_dumps v)) vs)
      = Some (Inr (map (\<lambda>(name, v). (name, if name \<in> set NO_DECODE_FIELDS then PStr (json_dumps v) else v)) vs))"
    if "list_all (\<lambda>(name, v). dumpable v) vs" "set (keys vs) \<subseteq> set TARGET_FIELDS \<union> set NO_DECODE_FIELDS" for vs
    using that
  proof (induction vs)
    case (Cons x vs)
    obtain name v where x: "x = (name, v)" by force
    have disjoint: "name \<notin> set TARGET_FIELDS \<or> name \<notin> set NO_DECODE_FIELDS" by (auto simp: TARGET_FIELDS_def NO_DECODE_FIELDS_def)
    have "decode name (json_dumps v) = Some (Inr (if name \<in> set NO_DECODE_FIELDS then PStr (json_dumps v) else v))"
      using assms(2) Cons.prems disjoint loads_dumps [of v ft] by (auto simp: x decodes_json_def)
    then show ?case using Cons by (simp add: x decode_env_Cons)
  qed (simp add: decode_env_def)
  moreover have "set (keys (settings_values cfg)) \<subseteq> set TARGET_FIELDS \<union> set NO_DECODE_FIELDS"
    by (simp add: settings_values_def Let_def TARGET_FIELDS_def NO_DECODE_FIELDS_def)
  ultimately show ?thesis
    using settings_values_dumpable [OF assms(1)] by (simp add: settings_env_def decoded_values_def)
qed

lemma target_given_value:
  "annotation v = Some x \<Longrightarrow> map_of raw name = Some v \<Longrightarrow> (\<And>s. v \<noteq> PStr s) \<Longrightarrow> target_given ft raw name annotation d x"
  by (auto simp: target_given_def split: pyval.split)

lemma decoded_values_given:
  "settings_given ft (decoded_values cfg) base
     (base\<lparr>jwt_algorithms := jwt_algorithms cfg, authz_role_permissions := authz_role_permissions cfg,
        authz_grafana_roles := authz_grafana_roles cfg, authz_route_actions := authz_route_actions cfg,
        health_targets := health_targets cfg, stack_targets := stack_targets cfg,
        fallback_trigger_components := fallback_trigger_components cfg, cors_allow_origins := cors_allow_origins cfg\<rparr>)"
proof -
  have words: "words_given ft raw name d ws" if "map_of raw name = Some (PStr (json_dumps (strs ws)))" for raw name d ws
    unfolding load_words_given [symmetric] by (rule load_word_list [OF that])
  note look = decoded_values_def settings_values_def Let_def NO_DECODE_FIELDS_def
  show ?thesis
    unfolding settings_given_def
    by (intro conjI words target_given_value [of "as_dict as_str", OF annotations_accept(1)]
        target_given_value [of "as_dict (as_list as_str)", OF annotations_accept(2)]
        target_given_value [of "as_list as_pair", OF annotations_accept(3)], simp_all add: look del: json_dumps.simps)
qed

text \<open>A decoding for the examples, and a text that is not JSON.\<close>

definition example_decode :: "(string \<Rightarrow> string) \<Rightarrow> string \<Rightarrow> string \<Rightarrow> pyval attempt" where
  "example_decode ft name s = (if name \<in> set NO_DECODE_FIELDS then Some (Inr (PStr s)) else json_loads ft s)"

lemma example_decode_json: "decodes_json ft (example_decode ft)"
  by (auto simp: decodes_json_def example_decode_def TARGET_FIELDS_def NO_DECODE_FIELDS_def dest: json_loads_raises)

lemma not_json_raises: "json_loads id ''http://a:1'' = Some (Inl ValueError)"
  by code_simp

section \<open>Properties\<close>

text \<open>C21: the two forms of a list setting agree.  A text that is neither blank nor starts with a bracket is the
  list of its non-empty comma-separated items without surrounding white space, and the JSON array of those
  items is parsed to the same list.
\<close>

theorem parse_list_forms_agree:
  assumes "py_strip s \<noteq> []" and "\<not> py_startswith (py_strip s) ''[''"
    and "items = filter (\<lambda>w. w \<noteq> []) (map py_strip (py_split CHR '','' s))"
  shows "parse_list ft (PStr s) = Some (Inr (PList (map PStr items)))
    \<and> parse_list ft (PStr (json_dumps (PList (map PStr items)))) = parse_list ft (PStr s)"
proof -
  have "parse_list ft (PStr s) = Some (Inr (PList (map PStr items)))"
    using assms by (simp add: parse_list_def Let_def comma_items_strip)
  then show ?thesis by (simp only: parse_list_dumps simp_thms)
qed

theorem parse_list_forms_agree_witness:
  "parse_list id (PStr ''HS256, ,RS256 '') = Some (Inr (PList [PStr ''HS256'', PStr ''RS256'']))"
  using parse_list_forms_agree [of "''HS256, ,RS256 ''" "[''HS256'', ''RS256'']" id]
  by (simp add: py_strip_def py_lstrip_def is_space_def py_startswith_def py_split_def)

text \<open>C20: every structured setting survives being written into the environment.  When each of the eight
  settings is given as the JSON text of its value, the settings built have exactly those values, and
  the scalar ones of \<open>base\<close>.
\<close>

theorem settings_roundtrip:
  assumes "settings_ok cfg"
  shows "load_settings ft (settings_json cfg) base =
    Some (Inr (base\<lparr>jwt_algorithms := jwt_algorithms cfg, authz_role_permissions := authz_role_permissions cfg,
      authz_grafana_roles := authz_grafana_roles cfg, authz_route_actions := authz_route_actions cfg,
      health_targets := health_targets cfg, stack_targets := stack_targets cfg,
      fallback_trigger_components := fallback_trigger_components cfg, cors_allow_origins := cors_allow_origins cfg\<rparr>))"
proof -
  note wf = assms [unfolded settings_ok_def]
  show ?thesis
    unfolding load_settings_def using wf
    by (simp add: settings_json_lookup(1,7,8) [THEN load_word_list] settings_json_lookup(3,5,6) [THEN load_str_dict]
        settings_json_lookup(2) [THEN load_role_map] settings_json_lookup(4) [THEN load_pairs])
qed

theorem settings_roundtrip_witness:
  "load_settings id (settings_json default_settings) default_settings = Some (Inr default_settings)"
  using settings_roundtrip [of default_settings id default_settings]
  by (simp add: settings_ok_def wf_dict_def default_settings_def)

text \<open>C27: every structured setting is what its own raw value says, and nothing else is accepted.  The settings built are exactly
  the ones in which each of the eight fields has the value that its given text or object denotes (JSON for the targets; a
  bracketed JSON array or comma-separated items for the lists), the class default when it is not given, and every other field is
  that of \<open>base\<close>.  When no such settings exist the construction raises \<open>ValueError\<close>, and it always ends in one of the two
  for texts without escapes.\<close>

theorem settings_exact:
  "(load_settings ft raw base = Some (Inr cfg) \<longleftrightarrow> settings_given ft raw base cfg)
   \<and> (load_settings ft raw base = Some (Inl e) \<longrightarrow> e = ValueError \<and> (\<forall>cfg'. \<not> settings_given ft raw base cfg'))
   \<and> (list_all (\<lambda>(name, v). no_escapes v) raw \<longrightarrow> load_settings ft raw base \<noteq> None)"
  using load_settings_given [of ft raw base] load_settings_raises [of ft raw base e] load_settings_total [of raw ft base] by auto

theorem settings_exact_witness:
  "load_settings id [(''jwt_algorithms'', PStr ''HS256, ,RS256 ''), (''health_targets'', PDict [(''a'', PStr ''http://a:1'')])] default_settings
   = Some (Inr (default_settings\<lparr>jwt_algorithms := [''HS256'', ''RS256''], health_targets := [(''a'', ''http://a:1'')]\<rparr>))"
proof -
  let ?raw = "[(''jwt_algorithms'', PStr ''HS256, ,RS256 ''), (''health_targets'', PDict [(''a'', PStr ''http://a:1'')])]"
  let ?cfg = "default_settings\<lparr>jwt_algorithms := [''HS256'', ''RS256''], health_targets := [(''a'', ''http://a:1'')]\<rparr>"
  have "words_given id ?raw ''jwt_algorithms'' d [''HS256'', ''RS256'']" for d
    by (simp add: words_given_def py_strip_def py_lstrip_def is_space_def py_startswith_def py_split_def)
  then have "settings_given id ?raw default_settings ?cfg"
    by (simp add: settings_given_def target_given_def words_given_def as_dict_def)
  then show ?thesis by (rule settings_exact [THEN conjunct1, THEN iffD2])
qed



text \<open>C29: the environment of a process can hold any structured settings.  When each of the eight variables is the JSON
  text of its value, the decoding by \<open>pydantic-settings\<close>, the validators and the annotations together give those values
  back: neither is a map decoded twice into something else, nor a list decoded before the comma form is looked for.\<close>

theorem env_roundtrip:
  assumes "settings_ok cfg" "decodes_json ft decode"
  shows "load_env decode ft (settings_env cfg) base =
    Some (Inr (base\<lparr>jwt_algorithms := jwt_algorithms cfg, authz_role_permissions := authz_role_permissions cfg,
      authz_grafana_roles := authz_grafana_roles cfg, authz_route_actions := authz_route_actions cfg,
      health_targets := health_targets cfg, stack_targets := stack_targets cfg,
      fallback_trigger_components := fallback_trigger_components cfg, cors_allow_origins := cors_allow_origins cfg\<rparr>))"
  using decode_settings_env [OF assms] decoded_values_given [of ft cfg base]
  by (simp add: load_env_def load_settings_given)

theorem env_roundtrip_witness:
  "load_env (example_decode id) id (settings_env default_settings) default_settings = Some (Inr default_settings)"
  using env_roundtrip [OF _ example_decode_json, of default_settings id default_settings]
  by (simp add: settings_ok_def wf_dict_def default_settings_def)

end
