(* ===== verification/Spec2Isabelle.thy ===== *)
theory Spec2Isabelle
  imports GwJournal GwChronicle GwSettings
begin

text \<open>
  The observability gateway \<open>obs-gateway\<close> (\<open>src/gateway/src/obs_gateway\<close>): a FastAPI service that accepts
  telemetry of frontend clients, enriches it with the identity of an optional token and forwards it to an
  OTLP collector, watches the health of the observability stack and falls back to local files while it is
  down, and authorizes the requests of an edge proxy.  This development models the service and proves what
  makes each part, and the whole, correct.

  \<^bold>\<open>Parts and theories\<close>

  \<^item> \<open>GwPrelude\<close>: clock readings, dictionaries as association lists in insertion order, the dictionary
    contract (\<open>dict_store\<close>), runs of a stateful check.
  \<^item> \<open>PyText\<close>, \<open>PyJson\<close>: the Python string operations, integers from text, JSON values,
    \<open>str\<close>/\<open>repr\<close>, truthiness and \<open>json.dumps\<close> that the source uses.
  \<^item> \<open>PyJsonParse\<close>, \<open>PyJsonRound\<close>: \<open>json.loads\<close> as its scanner reads a text, with fuel; that it consumes its text,
    that its fuel is enough, that its dictionaries have distinct keys, and that it reads what \<open>json.dumps\<close> wrote.
  \<^item> \<open>GwConfig\<close> (\<open>config.py\<close>): the settings record, its defaults, \<open>max_request_bytes\<close>.  Where the code reads
    the module-level \<open>settings\<close>, the model takes the record \<open>cfg\<close>.
  \<^item> \<open>GwSettings\<close> (\<open>config.py\<close>, \<open>_parse_targets\<close> and \<open>_parse_list\<close>): the validators of the structured settings,
    their annotations, and the settings built from raw values or from the environment, whose JSON decoding by
    \<open>pydantic-settings\<close> is the parameter \<open>decode\<close>.
  \<^item> \<open>GwThrottle\<close> (\<open>ingest.py\<close>, \<open>_rate_limited\<close> and \<open>_is_duplicate\<close>): the tables \<open>_hits\<close> and
    \<open>_recent\<close>; the sliding-window contract \<open>sliding_limiter\<close> against the limiter that keeps the whole log.
  \<^item> \<open>GwAuth\<close> (\<open>auth.py\<close>): principals from bearer tokens, roles, the internal key, the cache of JWKS clients.
  \<^item> \<open>GwAuthz\<close> (\<open>authz.py\<close>): the three authorizers as instances of the contracts \<open>authorizer\<close> and
    \<open>tenant_authorizer\<close>, the route guard, the forward-auth endpoint.
  \<^item> \<open>GwEmit\<close> (\<open>emit.py\<close>): the severity table, the bounded registry of providers, the log record.
  \<^item> \<open>GwClock\<close> (\<open>stack.py\<close>, \<open>_now\<close>): the clock texts of the local logs, from the microseconds of the clock through
    Python's calendar to ISO 8601.
  \<^item> \<open>GwStack\<close> (\<open>stack.py\<close>): \<open>FallbackLog\<close> with its rotating files (contracts \<open>line_sink\<close> and
    \<open>durable_sink\<close>), \<open>StackMonitor\<close> with its probes, transitions, gauges and loop.
  \<^item> \<open>GwValidate\<close> (\<open>ingest.py\<close>, the Pydantic models): validation of events and batches.
  \<^item> \<open>GwIngest\<close> (\<open>ingest.py\<close>, \<open>_client_ip\<close>, \<open>_signature\<close>, \<open>ingest\<close>): the handler over the record
    \<open>gateway\<close>, which gathers the module-level tables, the emitter, the monitor and the fallback log.
  \<^item> \<open>GwHealth\<close> (\<open>health.py\<close>): \<open>/status\<close> and \<open>/status/stack\<close> behind the guard.
  \<^item> \<open>GwApp\<close> (\<open>main.py\<close>, \<open>metrics.py\<close>): the body-size limit, an ingest request behind it, request
    metrics, middleware order, lifespan.
  \<^item> \<open>GwSystem\<close>: the gateway as a step relation, its reachable states and their invariant.
  \<^item> \<open>GwService\<close>: the abstract server of the ingest service, and the simulation (contract \<open>simulation\<close>) by which
    the gateway implements it.
  \<^item> \<open>GwLifecycle\<close> (\<open>main.py\<close>, \<open>lifespan\<close>): the life of the process as a state machine, from start-up through
    serving and the cancellation of the monitor task to the end of the lifespan.
  \<^item> \<open>GwChronicle\<close>: the gateway run with its wall clock, and the order of the lines it writes.
  \<^item> \<open>GwRoutes\<close> (\<open>main.py\<close>, \<open>metrics.py\<close>, the routers): the routes and their handlers, the middleware in its order, the
    exported metrics, the log level; FastAPI and \<open>prometheus_client\<close> are the parameter \<open>framework\<close>.
  \<^item> \<open>GwFront\<close>: the application as its HTTP clients see it, against the abstract server of \<open>GwService\<close>.
  \<^item> \<open>GwInterleave\<close>: many requests at once, as the turns of the event loop, against the requests served whole.
  \<^item> \<open>GwObserve\<close>: what the exported metrics say of such a server, told from the requests and checks it served.
  \<^item> \<open>GwJournal\<close>: its events file, against the journal an ideal server would keep.

  \<^bold>\<open>State and steps\<close>

  A handler is a function from the state to its answer and the new state, with every early return, raise and
  counter of the source as a branch.  What comes from outside is an argument: clock readings, the verdicts of
  PyJWT (\<open>jwt_lib\<close>, one for each request, since an expiry makes them depend on the time), the answer of the RBAC service (\<open>rbac_post\<close>), the answers of probed URLs, failures of the
  OpenTelemetry SDK, whether the log directory opens, the SHA-256 digest \<open>sha\<close>, and the serialised size of an
  event \<open>dump_len\<close>.  The steps of \<open>GwSystem\<close> are the stretches the event loop runs without a break: the
  ingest handler awaits nothing after the body is parsed, and a health check changes its state only after all
  its probes have answered.

  \<^bold>\<open>What is shown\<close>

  \<^item> Throttling: no client exceeds its rate in any closed minute; the pruned deques refine the limiter with the
    whole log; deduplication never drops a first sighting, is exact while no window holds more signatures than the table's
    capacity, and silences an error loop.  The deduplication table is bounded; the rate-limit table keeps every client of
    the last minute, however many there are.
  \<^item> Security: forged proxy headers do not change the client address; context never overrides identity
    attributes; signatures separate tenants when identifiers have no \<open>|\<close> and are not the text \<open>None\<close>, and collide exactly
    when tenant and user agree once joined by \<open>|\<close>; the
    authorizers grant exactly what is configured, isolate tenants and fail closed; the guard and the
    forward-auth endpoint answer as specified on every branch.
  \<^item> Validation: accepted batches are well formed, all or nothing; validating again what was validated gives
    it back.
  \<^item> Ingest: the full effect of a request on each branch; a valid request never raises whatever the SDK and the
    disk do; the loop equals separate passes, and what is emitted tells each event, its time, text, severity, identifiers and
    attributes; in fallback each accepted event is one line of the events file.
  \<^item> Monitoring: read back from the health file, the transitions alternate and agree with the reported health; the file
    keeps the newest lines;
    rotation bounds the files; the rollups of both status endpoints are exact.
  \<^item> Settings: the comma and the JSON form of a list agree; structured settings survive being written as JSON, in the
    environment too; the settings built are exactly those the given values denote, and every other input raises \<open>ValueError\<close>.
  \<^item> The service: over any run its answers are those of an ideal server that sees only times, addresses and
    validity, and, within the capacity of the deduplication table, the events it forwards are those of an ideal server
    that never forgets, each told by what is emitted.  The same holds end to end, of
    HTTP requests taken through routing, middleware and body limit: those that reach the ingest handler are answered as
    the ideal server answers them, and no other request changes the service.
  \<^item> Concurrency: any interleaving of the turns of many requests and checks gives the state, and each client the
    answers, of the requests served whole in the order in which they were handled.
  \<^item> Metrics: at any moment of any interleaving the counters agree with the requests acknowledged, and the gauges with
    what the last health check was answered; the two fallback series say so of the outage, whether or not a file is written.
  \<^item> The events file: while its directory opens, what is written to it tells, in order, exactly the events forwarded while
    the last health check had found a trigger component down, each by a line that reads back as its record; the rotation may
    drop the oldest of them.
  \<^item> The application: status and identity leave it past the guard only, however requests are routed; every
    answered request is observed once, under the template of its route.
  \<^item> Time: the clock texts compare like the instants they name, and the local logs are in chronological order
    while the clock does not go back.
  \<^item> The whole: in every reachable state memory is bounded and every line of the local logs reads back as a record;
    an oversized request changes nothing and is answered 413, but for a declared length of more than 4300 digits, which
    raises; a stopped process has flushed every provider that was used; the events file
    is written in an outage only, and by requests only; the fallback ends with the outage; a quiet client is served.

  \<^bold>\<open>Conventions and limits of the model\<close>

  Characters are the code points below 256, on which \<open>strip\<close>, \<open>lower\<close> and \<open>isspace\<close> follow Python; clock
  readings are rationals with exact subtraction; Python integers are unbounded.  Every
  recursion of the model is structural or over a list the code consumes, but for \<open>json.loads\<close>: its scanner takes
  fuel, \<open>json_loads\<close> gives it twice the length of the text plus one, and that is enough for every text
  (\<open>scan_enough\<close>; more changes nothing, \<open>scan_more\<close>).  A \<open>\u\<close> escape above U+00FF is outside the character
  model: there \<open>json_loads\<close> is \<^const>\<open>None\<close> and nothing is said.  The parser of hexadecimal identifiers
  and \<open>int\<close> of a digit string follow Python's grammar, with its limit of 4300 decimal digits.  A rotating
  file is its lines, counted in bytes with their newline (the lines are ASCII); an empty file is never
  rolled over; the process starts with no files, and a write to an open file succeeds.

  Not modelled: the conversion of the scalar settings and of Pydantic's error texts (Pydantic), the route matching, preflight
  handling and body parsing inside FastAPI and the rendering of \<open>/metrics\<close> (parameters of \<open>GwRoutes\<close>; of the router it
  is assumed, where a property says so, that a path without parameters is matched literally and in order), the JSON texts of
  the status replies (their content is modelled), the export inside the OpenTelemetry SDK, log messages other
  than the warnings the fallback log counts, an exception of a provider's \<open>shutdown()\<close> (it would end the loop of
  \<open>Emitter.shutdown\<close> before the other providers are flushed and the log is closed), Python's limit on nested calls
  (a deeply nested JSON text raises \<open>RecursionError\<close>), and the smoke test, which only
  drives a running stack.
\<close>

section \<open>Inputs of the examples\<close>

text \<open>A gateway that logs locally, after a first check that found Loki down.\<close>

lemma first_outage_files:
  "map (\<lambda>(p, f). (p, length (rfile_lines f))) (files (g_fallback (monitor_step logged_settings outage_env empty_gateway)))
     = [((''/logs'', HEALTH_FILE), 1)]"
  by code_simp

lemma single_file:
  "map (\<lambda>(p, f). (p, length (rfile_lines f))) fs = [(q, 1)] \<Longrightarrow> \<exists>f l. fs = [(q, f)] \<and> rfile_lines f = [l]"
  by (cases fs) (auto simp: length_Suc_conv)

section \<open>Consequences of the invariant\<close>

lemma log_line_reads:
  assumes "log_line l"
  shows "CHR 0x0A \<notin> set l \<and> (\<exists>d. json_loads ft l = Some (Inr (PDict d)) \<and> map_of d ''time'' \<noteq> None)"
proof -
  obtain now rec where l: "json_line (timed now rec) l" using assms by (auto simp: log_line_def)
  have "''time'' \<in> set (keys (timed now rec))" unfolding timed_def keys_merge_dict by simp
  then have "map_of (timed now rec) ''time'' \<noteq> None" unfolding in_keys_iff_map_of .
  then show ?thesis using json_line_one_line [OF l] json_line_loads [OF l, of ft] by blast
qed

lemma components_bounded:
  assumes "reachable cfg g"
  shows "length (components (g_monitor g)) \<le> length (stack_targets cfg)"
proof -
  have ok: "distinct (keys (components (g_monitor g)))" "set (keys (components (g_monitor g))) \<subseteq> set (keys (stack_targets cfg))"
    using reachable_ok [OF assms] by (simp_all add: gateway_ok_def components_ok_def wf_dict_def)
  have "length (components (g_monitor g)) = card (set (keys (components (g_monitor g))))"
    using distinct_card [OF ok(1)] by simp
  also have "\<dots> \<le> card (set (keys (stack_targets cfg)))" by (rule card_mono [OF _ ok(2)]) simp
  also have "\<dots> \<le> length (stack_targets cfg)" by (metis card_length length_map)
  finally show ?thesis .
qed

lemma drop_expired_all: "list_all (\<lambda>t. now - t > RATE_WINDOW_SECONDS) w \<Longrightarrow> drop_expired now w = []"
  by (induction w) auto

section \<open>Properties of the whole gateway\<close>

text \<open>C13: bounded memory.  In every reachable state, whatever clients send and in whatever order requests, health
  checks and shutdowns interleave, the deduplication table has at most 4097 entries, the emitter at most 33
  providers, the monitor one entry at most per configured component, and no log file more backups than configured.\<close>

theorem gateway_bounds:
  assumes "reachable cfg g"
  shows "length (g_recent g) \<le> 4097 \<and> length (providers (g_emitter g)) \<le> 33
    \<and> length (components (g_monitor g)) \<le> length (stack_targets cfg)
    \<and> list_all (\<lambda>(p, f). length (backups f) \<le> nat (fallback_log_backup_count cfg)) (files (g_fallback g))"
proof -
  have ok: "gateway_ok cfg g" using reachable_ok [OF assms] .
  then have "length (g_recent g) \<le> 4097" by (simp add: gateway_ok_def MAX_TRACKED_KEYS_def)
  moreover have "length (providers (g_emitter g)) \<le> 33"
    using ok emitter_ok_length [of "g_emitter g"] by (simp add: gateway_ok_def emitter_ok_def MAX_APP_SERVICES_def)
  moreover have "list_all (\<lambda>(p, f). length (backups f) \<le> nat (fallback_log_backup_count cfg)) (files (g_fallback g))"
    using ok by (auto simp: gateway_ok_def files_ok_def entry_ok_def log_file_ok_def list_all_iff)
  ultimately show ?thesis using components_bounded [OF assms] by blast
qed

theorem gateway_bounds_witness:
  "g_accepted after_boom = 1 \<and> length (g_recent after_boom) \<le> 4097 \<and> length (providers (g_emitter after_boom)) \<le> 33"
  using gateway_bounds [OF after_boom_reachable] after_boom_state(1) by blast

text \<open>The counter of accepted events is right.  In every reachable state it is the number of events handed to
  the emitter, one output for each.\<close>

theorem accepted_emitted:
  assumes "reachable cfg g"
  shows "length (g_emitted g) = g_accepted g"
  using reachable_ok [OF assms] by (simp add: gateway_ok_def)

theorem accepted_emitted_witness: "length (g_emitted after_boom) = 1"
  using accepted_emitted [OF after_boom_reachable] after_boom_state(1) by simp

text \<open>C35: the local logs are well-formed.  In every reachable state the only files are \<open>events.jsonl\<close> and
  \<open>stack-health.jsonl\<close> of the configured directory, none when no directory is configured, and every line
  of them and their backups is free of newlines and reads back as a JSON object with a \<open>time\<close>, whatever text
  clients and components supplied.\<close>

theorem local_logs_well_formed:
  assumes "reachable cfg g"
  shows "list_all (\<lambda>(p, f). p \<in> set [(fallback_log_dir cfg, EVENTS_FILE), (fallback_log_dir cfg, HEALTH_FILE)]
           \<and> fallback_log_dir cfg \<noteq> []
           \<and> list_all (\<lambda>l. CHR 0x0A \<notin> set l
                \<and> (\<exists>d. json_loads ft l = Some (Inr (PDict d)) \<and> map_of d ''time'' \<noteq> None)) (rfile_lines f))
         (files (g_fallback g))"
proof -
  have "list_all (entry_ok cfg) (files (g_fallback g))"
    using reachable_ok [OF assms] by (simp add: gateway_ok_def files_ok_def)
  moreover have "list_all log_line ls \<Longrightarrow> list_all (\<lambda>l. CHR 0x0A \<notin> set l
      \<and> (\<exists>d. json_loads ft l = Some (Inr (PDict d)) \<and> map_of d ''time'' \<noteq> None)) ls" for ls
    by (erule list.pred_mono_strong) (rule log_line_reads)
  ultimately show ?thesis
    by (elim list.pred_mono_strong) (auto simp: entry_ok_def log_file_ok_def prod_eq_iff)
qed

theorem local_logs_well_formed_witness:
  "\<exists>f l d. files (g_fallback (monitor_step logged_settings outage_env empty_gateway)) = [((''/logs'', HEALTH_FILE), f)]
     \<and> rfile_lines f = [l] \<and> json_loads id l = Some (Inr (PDict d)) \<and> map_of d ''time'' \<noteq> None"
proof -
  have "reachable logged_settings (monitor_step logged_settings outage_env empty_gateway)"
    by (rule reachable.step [OF reachable.start gw_step.serve [OF serve_step.check]])
  note ok = local_logs_well_formed [OF this, of id]
  obtain f l where "files (g_fallback (monitor_step logged_settings outage_env empty_gateway)) = [((''/logs'', HEALTH_FILE), f)]"
      "rfile_lines f = [l]"
    using single_file [OF first_outage_files] by blast
  then show ?thesis using ok by (intro exI [of _ f] exI [of _ l]) auto
qed

text \<open>The fallback ends with the outage.  After a check in which every trigger component is monitored and
  answered 200, the next ingest request writes nothing to the local files.\<close>

theorem fallback_ends:
  assumes "wf_dict (stack_targets cfg)"
    and "list_all (\<lambda>c. case map_of (stack_targets cfg) c of None \<Rightarrow> False | Some url \<Rightarrow> get_url env url = Inr 200)
           (fallback_trigger_components cfg)"
  shows "let g1 = monitor_step cfg env g;
             g2 = snd (post_ingest cfg lib sha dump_len now envs body request authz g1)
         in fallback_active cfg (g_monitor g1) = False \<and> g_fallback g2 = g_fallback g1"
proof -
  define g1 where "g1 = monitor_step cfg env g"
  have "map_of (components (g_monitor g1)) c =
      map_option (\<lambda>url. probe c (get_url env url) (probe_time env c)) (map_of (stack_targets cfg) c)"
    if "map_of (stack_targets cfg) c \<noteq> None" for c
    using that check_once_components [OF assms(1), of env "g_monitor g" "g_fallback g" c]
    by (auto simp: g1_def monitor_step_def case_prod_beta)
  then have inactive: "\<not> fallback_active cfg (g_monitor g1)"
    using assms(2) by (force simp: fallback_active_def list_ex_iff list_all_iff probe_def split: option.splits)
  have "g_fallback (snd (post_ingest cfg lib sha dump_len now envs body request authz g1)) = g_fallback g1"
    using inactive by (rule post_ingest_no_fallback)
  then show ?thesis using inactive by (simp add: Let_def flip: g1_def)
qed

theorem fallback_ends_witness:
  "fallback_active default_settings (g_monitor degraded_gateway)
   \<and> \<not> fallback_active default_settings (g_monitor (monitor_step default_settings (outage_env\<lparr>get_url := \<lambda>url. Inr 200\<rparr>) degraded_gateway))"
proof
  have "wf_dict (stack_targets default_settings)" by (simp add: default_settings_def wf_dict_def)
  moreover have "list_all (\<lambda>c. case map_of (stack_targets default_settings) c of None \<Rightarrow> False
      | Some url \<Rightarrow> get_url (outage_env\<lparr>get_url := \<lambda>url. Inr 200\<rparr>) url = Inr 200) (fallback_trigger_components default_settings)"
    by (simp add: default_settings_def)
  ultimately show "\<not> fallback_active default_settings (g_monitor (monitor_step default_settings (outage_env\<lparr>get_url := \<lambda>url. Inr 200\<rparr>) degraded_gateway))"
    using fallback_ends [of default_settings "outage_env\<lparr>get_url := \<lambda>url. Inr 200\<rparr>"] by (simp add: Let_def)
qed (simp add: fallback_active_def degraded_gateway_def default_settings_def)

text \<open>C37: a client that was quiet for a minute is served.  In every reachable state, a valid batch from an address
  whose recorded requests are all more than 60 seconds old is answered 204, whatever the other clients did.\<close>

theorem quiet_client_served:
  assumes "reachable cfg g" "validate_batch cfg dump_len body = Inr evs" "1 \<le> rate_limit_per_min cfg"
    and "case map_of (g_hits g) (client_ip cfg request) of None \<Rightarrow> True
         | Some w \<Rightarrow> list_all (\<lambda>t. now - t > RATE_WINDOW_SECONDS) w"
  shows "fst (post_ingest cfg lib sha dump_len now envs body request authz g) = Status 204"
proof -
  let ?h = "prune_hits now (g_hits g)"
  have "wf_dict (g_hits g)" using reachable_ok [OF assms(1)] by (simp add: gateway_ok_def)
  then have "list_all (\<lambda>t. now - t > RATE_WINDOW_SECONDS) (case map_of ?h (client_ip cfg request) of None \<Rightarrow> [] | Some w \<Rightarrow> w)"
    using assms(4) map_of_prune_hits [of "g_hits g" now "client_ip cfg request"] by (auto split: option.splits)
  then have "\<not> fst (rate_check cfg now request g)"
    using assms(3) by (simp add: rate_limited_def Let_def drop_expired_all)
  then show ?thesis by (simp add: post_ingest_accepted [OF assms(2)])
qed

theorem quiet_client_served_witness:
  "fst (post_ingest default_settings reject_all_jwt (\<lambda>s. s) (\<lambda>ev. 40) 61 (\<lambda>i. quiet_env) boom_body empty_request None after_boom) = Status 204"
proof (rule quiet_client_served [OF after_boom_reachable boom_body_valid])
  show "1 \<le> rate_limit_per_min default_settings" by (simp add: default_settings_def)
  show "case map_of (g_hits after_boom) (client_ip default_settings empty_request) of None \<Rightarrow> True
         | Some w \<Rightarrow> list_all (\<lambda>t. 61 - t > RATE_WINDOW_SECONDS) w"
    by (simp add: after_boom_state RATE_WINDOW_SECONDS_def)
qed

end
